theory Spec2Isabelle
  imports Main "HOL-Library.Multiset" "HOL-Library.Word"
begin

section \<open>Data model\<close>

text \<open>
  The registry types consumed by \<^verbatim>\<open>main.go\<close>. A Go pointer field that may be nil is an
  \<open>option\<close>; a slice is a list (a nil slice and an empty slice both have length 0, which
  is all the code asks of them). A \<^verbatim>\<open>time.Time\<close> is an instant, counted in nanoseconds
  as an integer; \<^verbatim>\<open>Before\<close> and \<^verbatim>\<open>After\<close> compare instants. Go's \<^verbatim>\<open>int\<close> is
  modelled by \<open>int\<close>: the program only counts list elements with it and compares it.
  \<^verbatim>\<open>int64\<close> byte counts are 64-bit words, so that \<^verbatim>\<open>+=\<close> wraps as in Go.
\<close>

type_synonym time = int

record ImageDetail =
  ImageDigest :: "string option"
  ImageTags :: "string list"
  ImagePushedAt :: "time option"
  ImageSizeInBytes :: "64 word option"

record ImageIdentifier =
  ImageTag :: "string option"
  IdImageDigest :: "string option"

record Repository =
  RepositoryName :: "string option"

record Config =
  DryRun :: bool
  Days :: int
  Region :: string
  MaxImages :: int

record CleanupSummary =
  RepositoriesProcessed :: int
  ImagesDeleted :: int
  SpaceFreed :: "64 word"

text \<open>A nil pointer dereference is a panic: it unwinds through every caller of the core.\<close>

datatype panic = NilPointerDereference

section \<open>Image Selector\<close>

subsection \<open>The standard library's part\<close>

text \<open>
  \<^verbatim>\<open>time.Time.AddDate(0, 0, n)\<close> moves an instant by \<open>n\<close> calendar days; outside a
  time-zone transition a day is 24 hours.
\<close>

definition AddDate_days :: "time \<Rightarrow> int \<Rightarrow> time" where
  "AddDate_days t n = t + n * 86400000000000"

text \<open>
  \<^verbatim>\<open>sort.Slice\<close> sorts by the given \<open>less\<close> and is not stable. The model is the
  insertion sort that the library itself runs on short slices: each element in turn
  moves left past the elements it is less than.
\<close>

fun insertLess :: "('a \<Rightarrow> 'a \<Rightarrow> bool) \<Rightarrow> 'a \<Rightarrow> 'a list \<Rightarrow> 'a list" where
  "insertLess lessf x [] = [x]"
| "insertLess lessf x (y # ys) =
     (if lessf x y then x # y # ys else y # insertLess lessf x ys)"

definition sort_Slice :: "'a list \<Rightarrow> ('a \<Rightarrow> 'a \<Rightarrow> bool) \<Rightarrow> 'a list" where
  "sort_Slice xs lessf = fold (insertLess lessf) xs []"

subsection \<open>sortImagesByPushedTime\<close>

text \<open>The comparison closure handed to \<^verbatim>\<open>sort.Slice\<close>, on the two elements it reads.\<close>

definition pushedLess :: "ImageDetail \<Rightarrow> ImageDetail \<Rightarrow> bool" where
  "pushedLess a b =
     (case ImagePushedAt a of
        None \<Rightarrow> False
      | Some ta \<Rightarrow>
          (case ImagePushedAt b of
             None \<Rightarrow> True
           | Some tb \<Rightarrow> tb < ta))"

definition sortImagesByPushedTime :: "ImageDetail list \<Rightarrow> ImageDetail list" where
  "sortImagesByPushedTime images = sort_Slice images pushedLess"

subsection \<open>selectImagesForDeletion\<close>

definition cutoffTime :: "time \<Rightarrow> Config \<Rightarrow> time" where
  "cutoffTime now cfg = AddDate_days now (- Days cfg)"

definition keepCount :: "Config \<Rightarrow> ImageDetail list \<Rightarrow> int" where
  "keepCount cfg images =
     (if MaxImages cfg > 0
      then (if MaxImages cfg > int (length images) then int (length images)
            else MaxImages cfg)
      else 0)"

text \<open>
  The \<^verbatim>\<open>for i, img := range images\<close> loop; \<open>i\<close> is the index of the head of the rest
  of the slice, and an appended image is consed in front of what the rest appends.
\<close>

fun selectLoop :: "time \<Rightarrow> int \<Rightarrow> nat \<Rightarrow> ImageDetail list \<Rightarrow> ImageDetail list" where
  "selectLoop cutoff keep i [] = []"
| "selectLoop cutoff keep i (img # rest) =
     (if int i < keep then selectLoop cutoff keep (Suc i) rest
      else if (case ImagePushedAt img of None \<Rightarrow> False | Some t \<Rightarrow> t < cutoff)
      then img # selectLoop cutoff keep (Suc i) rest
      else selectLoop cutoff keep (Suc i) rest)"

text \<open>\<open>now\<close> is the one reading of the clock that the call takes.\<close>

definition selectImagesForDeletion :: "time \<Rightarrow> ImageDetail list \<Rightarrow> Config \<Rightarrow> ImageDetail list" where
  "selectImagesForDeletion now images cfg =
     (let sorted_images = sortImagesByPushedTime images
      in selectLoop (cutoffTime now cfg) (keepCount cfg sorted_images) 0 sorted_images)"

subsection \<open>getImageTag\<close>

text \<open>\<^verbatim>\<open>*img.ImageDigest\<close> dereferences the digest whether or not it is nil.\<close>

definition getImageTag :: "ImageDetail \<Rightarrow> panic + string" where
  "getImageTag img =
     (if length (ImageTags img) > 0 then Inr (hd (ImageTags img))
      else (case ImageDigest img of
              None \<Rightarrow> Inl NilPointerDereference
            | Some d \<Rightarrow> Inr d))"

definition getImageIdString :: "ImageIdentifier option \<Rightarrow> string" where
  "getImageIdString ident =
     (case ident of
        None \<Rightarrow> ''unknown''
      | Some i \<Rightarrow>
          (case ImageTag i of
             Some t \<Rightarrow> t
           | None \<Rightarrow>
               (case IdImageDigest i of
                  Some d \<Rightarrow> d
                | None \<Rightarrow> ''unknown'')))"

section \<open>Registry client and the world the core runs in\<close>

text \<open>
  Go's \<^verbatim>\<open>error\<close> values: what a client returns, and what \<^verbatim>\<open>fmt.Errorf("...: %w", err)\<close>
  wraps around it.
\<close>

datatype error = ServerException string | Wrap string error

record DescribeRepositoriesOutput =
  Repositories :: "Repository list"
  NextToken_repos :: "string option"

record ListImagesOutput =
  ImageIds :: "ImageIdentifier list"
  NextToken_images :: "string option"

record DescribeImagesOutput =
  ImageDetails :: "ImageDetail list"

record ImageFailure =
  ImageId :: "ImageIdentifier option"
  FailureReason :: "string option"
  FailureCode :: string

record BatchDeleteImageOutput =
  Failures :: "ImageFailure list"

text \<open>The requests the core sends, with the request fields it sets.\<close>

datatype Call =
  DescribeRepositoriesCall "string option"
| ListImagesCall string "string option"
| DescribeImagesCall string "ImageIdentifier list"
| BatchDeleteImageCall string "ImageIdentifier list"

text \<open>
  \<^verbatim>\<open>ECRClient\<close> is an interface: any implementation may stand behind it. An operation
  answers from the requests made so far and the request at hand, with an error or with
  an output (an implementation returns one or the other).
\<close>

record ECRClient =
  DescribeRepositories :: "Call list \<Rightarrow> string option \<Rightarrow> error + DescribeRepositoriesOutput"
  ListImages :: "Call list \<Rightarrow> string \<Rightarrow> string option \<Rightarrow> error + ListImagesOutput"
  DescribeImages :: "Call list \<Rightarrow> string \<Rightarrow> ImageIdentifier list \<Rightarrow> error + DescribeImagesOutput"
  BatchDeleteImage :: "Call list \<Rightarrow> string \<Rightarrow> ImageIdentifier list \<Rightarrow> error + BatchDeleteImageOutput"

text \<open>
  The lines written with \<^verbatim>\<open>log.Printf\<close>, with their arguments; a push time and a size
  are kept as they are instead of their formatted text.
\<close>

datatype LogLine =
  LogProcessing string
| LogFound nat string
| LogNoImages string
| LogSelected nat string
| LogDryRun string string "time option" "64 word option"
| LogDeleted nat string
| LogFailed string string string
| LogRepoError string error

text \<open>What a run has done so far: the requests sent and the lines logged, oldest first.\<close>

record World =
  calls :: "Call list"
  logged :: "LogLine list"

definition record_call :: "Call \<Rightarrow> World \<Rightarrow> World" where
  "record_call c w = w\<lparr>calls := calls w @ [c]\<rparr>"

definition log_Printf :: "LogLine \<Rightarrow> World \<Rightarrow> World" where
  "log_Printf l w = w\<lparr>logged := logged w @ [l]\<rparr>"

text \<open>
  \<^verbatim>\<open>time.Now()\<close> is read from the environment: the clock gives the instant read after
  the requests made so far.
\<close>

type_synonym Clock = "Call list \<Rightarrow> time"

text \<open>A function of the core either panics or returns.\<close>

datatype 'a outcome = Panic panic | Return 'a

section \<open>Fetching: getRepositories and getImageDetails\<close>

text \<open>
  Both are \<^verbatim>\<open>for { ... }\<close> loops that end when a page carries no continuation token,
  so they need not end: not returning is the value \<open>None\<close>.
\<close>

partial_function (option) getRepositories_loop ::
  "ECRClient \<Rightarrow> Repository list \<Rightarrow> string option \<Rightarrow> World
    \<Rightarrow> ((error + Repository list) \<times> World) option" where
  "getRepositories_loop client repositories nextToken w =
     (case DescribeRepositories client (calls w) nextToken of
        Inl err \<Rightarrow> Some (Inl err, record_call (DescribeRepositoriesCall nextToken) w)
      | Inr resp \<Rightarrow>
          (case NextToken_repos resp of
             None \<Rightarrow>
               Some (Inr (repositories @ Repositories resp),
                     record_call (DescribeRepositoriesCall nextToken) w)
           | Some t \<Rightarrow>
               getRepositories_loop client (repositories @ Repositories resp) (Some t)
                 (record_call (DescribeRepositoriesCall nextToken) w)))"

declare getRepositories_loop.simps [code]

definition getRepositories ::
  "ECRClient \<Rightarrow> World \<Rightarrow> ((error + Repository list) \<times> World) option" where
  "getRepositories client w = getRepositories_loop client [] None w"

partial_function (option) getImageDetails_loop ::
  "ECRClient \<Rightarrow> string \<Rightarrow> ImageDetail list \<Rightarrow> string option \<Rightarrow> World
    \<Rightarrow> ((error + ImageDetail list) \<times> World) option" where
  "getImageDetails_loop client repoName images nextToken w =
     (case ListImages client (calls w) repoName nextToken of
        Inl err \<Rightarrow> Some (Inl err, record_call (ListImagesCall repoName nextToken) w)
      | Inr listResp \<Rightarrow>
          (let w1 = record_call (ListImagesCall repoName nextToken) w in
           if length (ImageIds listResp) > 0 then
             (case DescribeImages client (calls w1) repoName (ImageIds listResp) of
                Inl err \<Rightarrow>
                  Some (Inl err, record_call (DescribeImagesCall repoName (ImageIds listResp)) w1)
              | Inr descResp \<Rightarrow>
                  (case NextToken_images listResp of
                     None \<Rightarrow>
                       Some (Inr (images @ ImageDetails descResp),
                             record_call (DescribeImagesCall repoName (ImageIds listResp)) w1)
                   | Some t \<Rightarrow>
                       getImageDetails_loop client repoName (images @ ImageDetails descResp)
                         (Some t)
                         (record_call (DescribeImagesCall repoName (ImageIds listResp)) w1)))
           else
             (case NextToken_images listResp of
                None \<Rightarrow> Some (Inr images, w1)
              | Some t \<Rightarrow> getImageDetails_loop client repoName images (Some t) w1)))"

declare getImageDetails_loop.simps [code]

definition getImageDetails ::
  "ECRClient \<Rightarrow> string \<Rightarrow> World \<Rightarrow> ((error + ImageDetail list) \<times> World) option" where
  "getImageDetails client repoName w = getImageDetails_loop client repoName [] None w"

section \<open>Batch Deleter\<close>

text \<open>The identifier built for one image of a batch: the first tag, otherwise the digest.\<close>

definition batchImageId :: "ImageDetail \<Rightarrow> ImageIdentifier" where
  "batchImageId img =
     (if length (ImageTags img) > 0
      then \<lparr>ImageTag = Some (hd (ImageTags img)), IdImageDigest = None\<rparr>
      else \<lparr>ImageTag = None, IdImageDigest = ImageDigest img\<rparr>)"

text \<open>
  The loop over \<^verbatim>\<open>result.Failures\<close>; \<^verbatim>\<open>*failure.FailureReason\<close> dereferences the reason
  whether or not it is nil.
\<close>

fun logFailures :: "ImageFailure list \<Rightarrow> World \<Rightarrow> unit outcome \<times> World" where
  "logFailures [] w = (Return (), w)"
| "logFailures (failure # rest) w =
     (case FailureReason failure of
        None \<Rightarrow> (Panic NilPointerDereference, w)
      | Some reason \<Rightarrow>
          logFailures rest
            (log_Printf (LogFailed (getImageIdString (ImageId failure)) reason
                           (FailureCode failure)) w))"

definition batchSize :: nat where
  "batchSize = 100"

function deleteImages_loop ::
  "ECRClient \<Rightarrow> string \<Rightarrow> ImageDetail list \<Rightarrow> nat \<Rightarrow> World
    \<Rightarrow> error option outcome \<times> World" where
  "deleteImages_loop client repoName images i w =
     (if i < length images then
        (let endi = (if i + batchSize > length images then length images else i + batchSize);
             batch = take (endi - i) (drop i images);
             imageIds = map batchImageId batch;
             w1 = record_call (BatchDeleteImageCall repoName imageIds) w
         in case BatchDeleteImage client (calls w) repoName imageIds of
              Inl err \<Rightarrow> (Return (Some (Wrap ''failed to delete batch of images'' err)), w1)
            | Inr result \<Rightarrow>
                (case logFailures (Failures result)
                        (log_Printf (LogDeleted (length batch) repoName) w1) of
                   (Panic p, w2) \<Rightarrow> (Panic p, w2)
                 | (Return u, w2) \<Rightarrow>
                     deleteImages_loop client repoName images (i + batchSize) w2))
      else (Return None, w))"
  by pat_completeness auto
termination
  by (relation "measure (\<lambda>(client, repoName, images, i, w). length images - i)")
     (auto simp: batchSize_def)

declare deleteImages_loop.simps [simp del]

definition deleteImages ::
  "ECRClient \<Rightarrow> string \<Rightarrow> ImageDetail list \<Rightarrow> World \<Rightarrow> error option outcome \<times> World" where
  "deleteImages client repoName images w = deleteImages_loop client repoName images 0 w"

section \<open>Repository Processor\<close>

text \<open>The loop that adds the known sizes to \<^verbatim>\<open>repoSummary.SpaceFreed\<close>.\<close>

fun addSizes :: "ImageDetail list \<Rightarrow> 64 word \<Rightarrow> 64 word" where
  "addSizes [] freed = freed"
| "addSizes (img # rest) freed =
     addSizes rest (case ImageSizeInBytes img of None \<Rightarrow> freed | Some n \<Rightarrow> freed + n)"

text \<open>The dry-run loop: one line per selected image, naming it with \<^verbatim>\<open>getImageTag\<close>.\<close>

fun dryRunReport :: "string \<Rightarrow> ImageDetail list \<Rightarrow> World \<Rightarrow> unit outcome \<times> World" where
  "dryRunReport repoName [] w = (Return (), w)"
| "dryRunReport repoName (img # rest) w =
     (case getImageTag img of
        Inl p \<Rightarrow> (Panic p, w)
      | Inr tag \<Rightarrow>
          dryRunReport repoName rest
            (log_Printf (LogDryRun repoName tag (ImagePushedAt img) (ImageSizeInBytes img)) w))"

definition processRepository ::
  "Clock \<Rightarrow> ECRClient \<Rightarrow> string \<Rightarrow> Config \<Rightarrow> World
    \<Rightarrow> ((CleanupSummary \<times> error option) outcome \<times> World) option" where
  "processRepository clock client repoName cfg w =
     (let repoSummary = \<lparr>RepositoriesProcessed = 1, ImagesDeleted = 0, SpaceFreed = 0\<rparr> in
      case getImageDetails client repoName (log_Printf (LogProcessing repoName) w) of
        None \<Rightarrow> None
      | Some (Inl err, w1) \<Rightarrow>
          Some (Return (repoSummary, Some (Wrap ''failed to get image details'' err)), w1)
      | Some (Inr images, w1) \<Rightarrow>
          (let w2 = log_Printf (LogFound (length images) repoName) w1;
               toDelete = selectImagesForDeletion (clock (calls w2)) images cfg
           in
             if length toDelete = 0
             then Some (Return (repoSummary, None), log_Printf (LogNoImages repoName) w2)
             else
               (let repoSummary1 = repoSummary\<lparr>ImagesDeleted := int (length toDelete)\<rparr>;
                    repoSummary2 =
                      repoSummary1\<lparr>SpaceFreed := addSizes toDelete (SpaceFreed repoSummary1)\<rparr>;
                    w3 = log_Printf (LogSelected (length toDelete) repoName) w2
                in
                  if DryRun cfg then
                    (case dryRunReport repoName toDelete w3 of
                       (Panic p, w4) \<Rightarrow> Some (Panic p, w4)
                     | (Return u, w4) \<Rightarrow> Some (Return (repoSummary2, None), w4))
                  else
                    (case deleteImages client repoName toDelete w3 of
                       (Panic p, w4) \<Rightarrow> Some (Panic p, w4)
                     | (Return (Some err), w4) \<Rightarrow> Some (Return (repoSummary2, Some err), w4)
                     | (Return None, w4) \<Rightarrow> Some (Return (repoSummary2, None), w4)))))"

section \<open>Cleanup Driver\<close>

text \<open>
  The loop over the repositories; \<^verbatim>\<open>*repo.RepositoryName\<close> dereferences the name whether
  or not it is nil.
\<close>

fun processRepositories ::
  "Clock \<Rightarrow> Config \<Rightarrow> ECRClient \<Rightarrow> Repository list \<Rightarrow> CleanupSummary \<Rightarrow> World
    \<Rightarrow> (CleanupSummary outcome \<times> World) option" where
  "processRepositories clock cfg client [] summary w = Some (Return summary, w)"
| "processRepositories clock cfg client (repo # rest) summary w =
     (case RepositoryName repo of
        None \<Rightarrow> Some (Panic NilPointerDereference, w)
      | Some name \<Rightarrow>
          (case processRepository clock client name cfg w of
             None \<Rightarrow> None
           | Some (Panic p, w1) \<Rightarrow> Some (Panic p, w1)
           | Some (Return (repoSummary, Some err), w1) \<Rightarrow>
               processRepositories clock cfg client rest summary
                 (log_Printf (LogRepoError name err) w1)
           | Some (Return (repoSummary, None), w1) \<Rightarrow>
               processRepositories clock cfg client rest
                 (summary\<lparr>ImagesDeleted := ImagesDeleted summary + ImagesDeleted repoSummary,
                          SpaceFreed := SpaceFreed summary + SpaceFreed repoSummary\<rparr>)
                 w1))"

definition CleanupWithClient ::
  "Clock \<Rightarrow> Config \<Rightarrow> ECRClient \<Rightarrow> World
    \<Rightarrow> ((CleanupSummary \<times> error option) outcome \<times> World) option" where
  "CleanupWithClient clock cfg client w =
     (let summary = \<lparr>RepositoriesProcessed = 0, ImagesDeleted = 0, SpaceFreed = 0\<rparr> in
      case getRepositories client w of
        None \<Rightarrow> None
      | Some (Inl err, w1) \<Rightarrow> Some (Return (summary, Some err), w1)
      | Some (Inr repos, w1) \<Rightarrow>
          (case processRepositories clock cfg client repos
                  (summary\<lparr>RepositoriesProcessed := int (length repos)\<rparr>) w1 of
             None \<Rightarrow> None
           | Some (Panic p, w2) \<Rightarrow> Some (Panic p, w2)
           | Some (Return summary', w2) \<Rightarrow> Some (Return (summary', None), w2)))"

section \<open>Observing a run\<close>

text \<open>
  Names used to state what a run did: the delete requests among the requests sent, the
  identifiers of the batch that the loop of \<^verbatim>\<open>deleteImages\<close> builds at index \<open>i\<close>, the
  requests of \<open>n\<close> consecutive batches from index \<open>i\<close> on, and the state of the loop
  after a batch that the registry answered with \<open>result\<close>.
\<close>

definition isBatchDelete :: "Call \<Rightarrow> bool" where
  "isBatchDelete c = (case c of BatchDeleteImageCall repoName ids \<Rightarrow> True | _ \<Rightarrow> False)"

definition batchIds :: "ImageDetail list \<Rightarrow> nat \<Rightarrow> ImageIdentifier list" where
  "batchIds images i = map batchImageId (take batchSize (drop i images))"

definition batchCalls :: "string \<Rightarrow> ImageDetail list \<Rightarrow> nat \<Rightarrow> nat \<Rightarrow> Call list" where
  "batchCalls repoName images i n =
     map (\<lambda>k. BatchDeleteImageCall repoName (batchIds images (i + k * batchSize))) [0..<n]"

definition afterBatch ::
  "string \<Rightarrow> ImageDetail list \<Rightarrow> nat \<Rightarrow> BatchDeleteImageOutput \<Rightarrow> World
    \<Rightarrow> unit outcome \<times> World" where
  "afterBatch repoName images i result w =
     logFailures (Failures result)
       (log_Printf (LogDeleted (length (take batchSize (drop i images))) repoName)
          (record_call (BatchDeleteImageCall repoName (batchIds images i)) w))"

section \<open>Scenarios\<close>

text \<open>The fixtures of the repository's tests, at a fixed reading of the clock.\<close>

definition test_now :: time where
  "test_now = 1700000000000000000"

definition daysAgo :: "int \<Rightarrow> time" where
  "daysAgo n = AddDate_days test_now (- n)"

definition selectTestImages :: "ImageDetail list" where
  "selectTestImages =
     [\<lparr>ImageDigest = Some ''sha256:1'', ImageTags = [''latest''],
       ImagePushedAt = Some (daysAgo 2), ImageSizeInBytes = Some 1000000\<rparr>,
      \<lparr>ImageDigest = Some ''sha256:2'', ImageTags = [''v2''],
       ImagePushedAt = Some (daysAgo 8), ImageSizeInBytes = Some 2000000\<rparr>,
      \<lparr>ImageDigest = Some ''sha256:3'', ImageTags = [''v1''],
       ImagePushedAt = Some (daysAgo 12), ImageSizeInBytes = Some 3000000\<rparr>,
      \<lparr>ImageDigest = Some ''sha256:4'', ImageTags = [''old''],
       ImagePushedAt = Some (daysAgo 15), ImageSizeInBytes = Some 1500000\<rparr>]"

definition nilTimeImages :: "ImageDetail list" where
  "nilTimeImages =
     [\<lparr>ImageDigest = Some ''sha256:nil'', ImageTags = [''nil-time''],
       ImagePushedAt = None, ImageSizeInBytes = None\<rparr>,
      \<lparr>ImageDigest = Some ''sha256:valid'', ImageTags = [''valid-time''],
       ImagePushedAt = Some (daysAgo 15), ImageSizeInBytes = None\<rparr>]"

definition sortTestImages :: "ImageDetail list" where
  "sortTestImages =
     [\<lparr>ImageDigest = Some ''sha256:4'', ImageTags = [],
       ImagePushedAt = Some (daysAgo 15), ImageSizeInBytes = None\<rparr>,
      \<lparr>ImageDigest = Some ''sha256:1'', ImageTags = [],
       ImagePushedAt = Some (daysAgo 2), ImageSizeInBytes = None\<rparr>,
      \<lparr>ImageDigest = Some ''sha256:3'', ImageTags = [],
       ImagePushedAt = Some (daysAgo 12), ImageSizeInBytes = None\<rparr>,
      \<lparr>ImageDigest = Some ''sha256:2'', ImageTags = [],
       ImagePushedAt = Some (daysAgo 8), ImageSizeInBytes = None\<rparr>]"

definition World0 :: World where
  "World0 = \<lparr>calls = [], logged = []\<rparr>"

definition test_clock :: Clock where
  "test_clock h = test_now"

text \<open>The test double: every operation gives its one scripted answer.\<close>

definition mockClient ::
  "error + DescribeRepositoriesOutput \<Rightarrow> error + ListImagesOutput
    \<Rightarrow> error + DescribeImagesOutput \<Rightarrow> error + BatchDeleteImageOutput \<Rightarrow> ECRClient" where
  "mockClient repos listed described deleted =
     \<lparr>DescribeRepositories = (\<lambda>h tok. repos),
      ListImages = (\<lambda>h repoName tok. listed),
      DescribeImages = (\<lambda>h repoName ids. described),
      BatchDeleteImage = (\<lambda>h repoName ids. deleted)\<rparr>"

definition testError :: error where
  "testError = ServerException ''Test server error''"

definition emptyRepoClient :: ECRClient where
  "emptyRepoClient =
     mockClient (Inl testError) (Inr \<lparr>ImageIds = [], NextToken_images = None\<rparr>)
       (Inl testError) (Inl testError)"

definition manyImages :: "nat \<Rightarrow> ImageDetail list" where
  "manyImages n =
     map (\<lambda>i. \<lparr>ImageDigest = Some (''sha256:'' @ [char_of i]), ImageTags = [],
               ImagePushedAt = Some (daysAgo 20), ImageSizeInBytes = Some 1000\<rparr>) [0..<n]"

definition tagId :: "string \<Rightarrow> ImageIdentifier" where
  "tagId t = \<lparr>ImageTag = Some t, IdImageDigest = None\<rparr>"

definition deleteError :: error where
  "deleteError = ServerException ''Delete error''"

definition deleteErrorClient :: ECRClient where
  "deleteErrorClient =
     mockClient (Inl testError) (Inl testError) (Inl testError) (Inl deleteError)"

definition deleteOkClient :: ECRClient where
  "deleteOkClient =
     mockClient (Inl testError) (Inl testError) (Inl testError) (Inr \<lparr>Failures = []\<rparr>)"

definition olderImage :: ImageDetail where
  "olderImage = \<lparr>ImageDigest = Some ''sha256:123'', ImageTags = [''v1''],
     ImagePushedAt = Some (daysAgo 15), ImageSizeInBytes = Some 1000000\<rparr>"

definition newerImage :: ImageDetail where
  "newerImage = \<lparr>ImageDigest = Some ''sha256:456'', ImageTags = [''latest''],
     ImagePushedAt = Some (daysAgo 5), ImageSizeInBytes = Some 2000000\<rparr>"

definition processTestClient :: ECRClient where
  "processTestClient =
     mockClient (Inl testError)
       (Inr \<lparr>ImageIds = [tagId ''v1'', tagId ''latest''], NextToken_images = None\<rparr>)
       (Inr \<lparr>ImageDetails = [olderImage, newerImage]\<rparr>)
       (Inr \<lparr>Failures = []\<rparr>)"

definition testConfig :: "bool \<Rightarrow> int \<Rightarrow> Config" where
  "testConfig dry days = \<lparr>DryRun = dry, Days = days, Region = [], MaxImages = 0\<rparr>"

text \<open>A registry whose first page of identifiers is empty and names a second page.\<close>

definition pagedClient :: ECRClient where
  "pagedClient =
     \<lparr>DescribeRepositories = (\<lambda>h tok. Inl testError),
      ListImages = (\<lambda>h repoName tok.
        case tok of
          None \<Rightarrow> Inr \<lparr>ImageIds = [], NextToken_images = Some ''page2''\<rparr>
        | Some t \<Rightarrow> Inr \<lparr>ImageIds = [tagId ''latest''], NextToken_images = None\<rparr>),
      DescribeImages = (\<lambda>h repoName ids. Inr \<lparr>ImageDetails = [newerImage]\<rparr>),
      BatchDeleteImage = (\<lambda>h repoName ids. Inl testError)\<rparr>"

text \<open>
  Partial failure: listing the images of \<open>repo-a\<close> fails, \<open>repo-b\<close> holds one image
  old enough to delete.
\<close>

definition partialFailureClient :: ECRClient where
  "partialFailureClient =
     \<lparr>DescribeRepositories = (\<lambda>h tok.
        Inr \<lparr>Repositories = [\<lparr>RepositoryName = Some ''repo-a''\<rparr>,
                              \<lparr>RepositoryName = Some ''repo-b''\<rparr>],
             NextToken_repos = None\<rparr>),
      ListImages = (\<lambda>h repoName tok.
        if repoName = ''repo-a'' then Inl (ServerException ''List error'')
        else Inr \<lparr>ImageIds = [tagId ''v1''], NextToken_images = None\<rparr>),
      DescribeImages = (\<lambda>h repoName ids. Inr \<lparr>ImageDetails = [olderImage]\<rparr>),
      BatchDeleteImage = (\<lambda>h repoName ids. Inr \<lparr>Failures = []\<rparr>)\<rparr>"

text \<open>
  One repository with 101 old images; the registry accepts the first delete request and
  fails every later one.
\<close>

definition secondBatchFailsClient :: ECRClient where
  "secondBatchFailsClient =
     \<lparr>DescribeRepositories = (\<lambda>h tok.
        Inr \<lparr>Repositories = [\<lparr>RepositoryName = Some ''test-repo''\<rparr>],
             NextToken_repos = None\<rparr>),
      ListImages = (\<lambda>h repoName tok.
        Inr \<lparr>ImageIds = [tagId ''old''], NextToken_images = None\<rparr>),
      DescribeImages = (\<lambda>h repoName ids. Inr \<lparr>ImageDetails = manyImages 101\<rparr>),
      BatchDeleteImage = (\<lambda>h repoName ids.
        if list_ex isBatchDelete h then Inl deleteError else Inr \<lparr>Failures = []\<rparr>)\<rparr>"

text \<open>An old image with neither a tag nor a digest, in an otherwise ordinary repository.\<close>

definition malformedImage :: ImageDetail where
  "malformedImage = \<lparr>ImageDigest = None, ImageTags = [],
     ImagePushedAt = Some (daysAgo 20), ImageSizeInBytes = None\<rparr>"

definition malformedClient :: ECRClient where
  "malformedClient =
     mockClient (Inl testError)
       (Inr \<lparr>ImageIds = [\<lparr>ImageTag = None, IdImageDigest = None\<rparr>], NextToken_images = None\<rparr>)
       (Inr \<lparr>ImageDetails = [malformedImage]\<rparr>)
       (Inr \<lparr>Failures = []\<rparr>)"

section \<open>Evaluation\<close>

lemmas fixture_defs = test_now_def daysAgo_def AddDate_days_def selectTestImages_def
  nilTimeImages_def sortTestImages_def

lemmas sort_eval = sortImagesByPushedTime_def sort_Slice_def pushedLess_def

lemmas client_defs = mockClient_def emptyRepoClient_def processTestClient_def
  deleteErrorClient_def deleteOkClient_def malformedClient_def testError_def deleteError_def
  tagId_def testConfig_def test_clock_def olderImage_def newerImage_def malformedImage_def

section \<open>The sort\<close>

lemma mset_insertLess: "mset (insertLess lessf x ys) = add_mset x (mset ys)"
  by (induction ys) simp_all

lemma mset_fold_insertLess: "mset (fold (insertLess lessf) xs acc) = mset xs + mset acc"
  by (induction xs arbitrary: acc) (simp_all add: mset_insertLess)

lemma mset_sort_Slice: "mset (sort_Slice xs lessf) = mset xs"
  by (simp add: sort_Slice_def mset_fold_insertLess)

lemma set_insertLess: "set (insertLess lessf x ys) = insert x (set ys)"
  by (induction ys) auto

lemma pushedLess_asym: "pushedLess a b \<Longrightarrow> \<not> pushedLess b a"
  by (auto simp: pushedLess_def split: option.splits)

lemma pushedLess_negtrans: "\<not> pushedLess b a \<Longrightarrow> \<not> pushedLess c b \<Longrightarrow> \<not> pushedLess c a"
  by (auto simp: pushedLess_def split: option.splits)

lemma sorted_insertLess:
  "sorted_wrt (\<lambda>a b. \<not> pushedLess b a) ys
   \<Longrightarrow> sorted_wrt (\<lambda>a b. \<not> pushedLess b a) (insertLess pushedLess x ys)"
proof (induction ys)
  case Nil
  then show ?case by simp
next
  case (Cons y ys)
  show ?case
  proof (cases "pushedLess x y")
    case True
    have "\<not> pushedLess z x" if "z \<in> set ys" for z
    proof -
      from Cons.prems that have "\<not> pushedLess z y" by simp
      moreover from True have "\<not> pushedLess y x" by (rule pushedLess_asym)
      ultimately show ?thesis using pushedLess_negtrans by blast
    qed
    with True Cons.prems show ?thesis by (simp add: pushedLess_asym)
  next
    case False
    with Cons show ?thesis by (auto simp: set_insertLess)
  qed
qed

lemma sorted_fold_insertLess:
  "sorted_wrt (\<lambda>a b. \<not> pushedLess b a) acc
   \<Longrightarrow> sorted_wrt (\<lambda>a b. \<not> pushedLess b a) (fold (insertLess pushedLess) xs acc)"
  by (induction xs arbitrary: acc) (simp_all add: sorted_insertLess)

lemma sorted_sortImagesByPushedTime:
  "sorted_wrt (\<lambda>a b. \<not> pushedLess b a) (sortImagesByPushedTime images)"
  by (simp add: sortImagesByPushedTime_def sort_Slice_def sorted_fold_insertLess)

lemma mset_sortImagesByPushedTime: "mset (sortImagesByPushedTime images) = mset images"
  by (simp add: sortImagesByPushedTime_def mset_sort_Slice)

lemma length_sortImagesByPushedTime: "length (sortImagesByPushedTime images) = length images"
  using mset_sortImagesByPushedTime [of images] by (metis size_mset)

text \<open>
  Claim C6. After \<^verbatim>\<open>sortImagesByPushedTime\<close> the slice holds the same images, ordered by
  push time with the most recent first, and every image with an unknown push time stands
  after every image with a known one: whenever the image at a later index \<open>j\<close> has a
  known push time, the image at any earlier index \<open>i\<close> has a known push time too, and
  one that is not earlier. Nothing is said of the order among images without a push time.
\<close>

theorem sortImagesByPushedTime_newest_first:
  "mset (sortImagesByPushedTime images) = mset images \<and>
   (\<forall>i j tj. i < j \<and> j < length images \<and>
       ImagePushedAt (sortImagesByPushedTime images ! j) = Some tj
     \<longrightarrow> (\<exists>ti. ImagePushedAt (sortImagesByPushedTime images ! i) = Some ti \<and> tj \<le> ti))"
proof (intro conjI allI impI)
  show "mset (sortImagesByPushedTime images) = mset images"
    by (rule mset_sortImagesByPushedTime)
next
  fix i j tj
  assume h: "i < j \<and> j < length images \<and>
    ImagePushedAt (sortImagesByPushedTime images ! j) = Some tj"
  let ?ys = "sortImagesByPushedTime images"
  from h have "j < length ?ys" by (simp add: length_sortImagesByPushedTime)
  with h sorted_sortImagesByPushedTime [of images]
  have "\<not> pushedLess (?ys ! j) (?ys ! i)"
    by (simp add: sorted_wrt_iff_nth_less)
  with h show "\<exists>ti. ImagePushedAt (?ys ! i) = Some ti \<and> tj \<le> ti"
    by (auto simp: pushedLess_def split: option.splits)
qed

theorem sortImagesByPushedTime_newest_first_witness:
  "(0::nat) < 1 \<and> 1 < length sortTestImages \<and>
   ImagePushedAt (sortImagesByPushedTime sortTestImages ! 1) = Some (daysAgo 8) \<and>
   (\<exists>ti. ImagePushedAt (sortImagesByPushedTime sortTestImages ! 0) = Some ti \<and> daysAgo 8 \<le> ti)"
proof -
  have h: "(0::nat) < 1 \<and> 1 < length sortTestImages \<and>
      ImagePushedAt (sortImagesByPushedTime sortTestImages ! 1) = Some (daysAgo 8)"
    by (simp add: fixture_defs sort_eval)
  with sortImagesByPushedTime_newest_first [of sortTestImages] show ?thesis
    by blast
qed

section \<open>The selection\<close>

lemma selectLoop_filter:
  "0 \<le> keep \<Longrightarrow>
   selectLoop cutoff keep i xs =
     filter (\<lambda>img. case ImagePushedAt img of None \<Rightarrow> False | Some t \<Rightarrow> t < cutoff)
       (drop (nat keep - i) xs)"
proof (induction xs arbitrary: i)
  case Nil
  then show ?case by simp
next
  case (Cons x xs)
  show ?case
  proof (cases "int i < keep")
    case True
    then have "nat keep - i = Suc (nat keep - Suc i)" by linarith
    with True Cons show ?thesis by simp
  next
    case False
    then have "nat keep - i = 0" "nat keep - Suc i = 0" by linarith+
    with False Cons show ?thesis by simp
  qed
qed

lemma keepCount_nonneg: "0 \<le> keepCount cfg images"
  by (simp add: keepCount_def)

lemma keepCount_length: "keepCount cfg (sortImagesByPushedTime images) = keepCount cfg images"
  by (simp add: keepCount_def length_sortImagesByPushedTime)

lemma selectImagesForDeletion_filter:
  "selectImagesForDeletion now images cfg =
     filter (\<lambda>img. case ImagePushedAt img of None \<Rightarrow> False | Some t \<Rightarrow> t < cutoffTime now cfg)
       (drop (nat (keepCount cfg images)) (sortImagesByPushedTime images))"
  by (simp add: selectImagesForDeletion_def Let_def selectLoop_filter keepCount_nonneg
      keepCount_length)

lemma set_drop_nth: "x \<in> set (drop n xs) \<longleftrightarrow> (\<exists>i. i < length xs \<and> n \<le> i \<and> xs ! i = x)"
proof
  assume "x \<in> set (drop n xs)"
  then obtain k where "k < length (drop n xs)" "drop n xs ! k = x"
    by (auto simp: in_set_conv_nth)
  then have "n + k < length xs \<and> n \<le> n + k \<and> xs ! (n + k) = x" by simp
  then show "\<exists>i. i < length xs \<and> n \<le> i \<and> xs ! i = x" by blast
next
  assume "\<exists>i. i < length xs \<and> n \<le> i \<and> xs ! i = x"
  then obtain i where i: "i < length xs" "n \<le> i" "xs ! i = x" by blast
  then have "i - n < length (drop n xs)" "drop n xs ! (i - n) = x" by simp_all
  then show "x \<in> set (drop n xs)" by (metis nth_mem)
qed

text \<open>
  Claim C1. An image with a known push time \<open>t\<close> is in the deletion set exactly when
  \<open>t\<close> is strictly before the cutoff, which is \<open>now\<close> minus \<open>Days\<close> days, and the
  image stands at a rank \<open>i \<ge> keepCount\<close> of the newest-first order. \<open>keepCount\<close> is
  \<open>min MaxImages (length images)\<close> when \<open>MaxImages > 0\<close> and \<open>0\<close> otherwise; so
  with \<open>MaxImages = 0\<close> the rank condition always holds, and with \<open>MaxImages\<close> at least
  the number of images nothing is selected.
\<close>

theorem selectImagesForDeletion_age_and_rank:
  "(ImagePushedAt img = Some t \<longrightarrow>
      (img \<in> set (selectImagesForDeletion now images cfg) \<longleftrightarrow>
         t < cutoffTime now cfg \<and>
         (\<exists>i. i < length images \<and> keepCount cfg images \<le> int i \<and>
              sortImagesByPushedTime images ! i = img))) \<and>
   cutoffTime now cfg = now - Days cfg * 86400000000000 \<and>
   keepCount cfg images =
     (if MaxImages cfg > 0 then min (MaxImages cfg) (int (length images)) else 0) \<and>
   (MaxImages cfg = 0 \<longrightarrow> keepCount cfg images = 0) \<and>
   (MaxImages cfg \<ge> int (length images) \<longrightarrow> selectImagesForDeletion now images cfg = [])"
proof (intro conjI impI)
  assume known: "ImagePushedAt img = Some t"
  have rank: "(\<exists>i. i < length images \<and> keepCount cfg images \<le> int i \<and>
                 sortImagesByPushedTime images ! i = img) \<longleftrightarrow>
              img \<in> set (drop (nat (keepCount cfg images)) (sortImagesByPushedTime images))"
    using keepCount_nonneg [of cfg images]
    by (auto simp: set_drop_nth length_sortImagesByPushedTime nat_le_iff)
  show "img \<in> set (selectImagesForDeletion now images cfg) \<longleftrightarrow>
        t < cutoffTime now cfg \<and>
        (\<exists>i. i < length images \<and> keepCount cfg images \<le> int i \<and>
             sortImagesByPushedTime images ! i = img)"
    unfolding rank using known by (auto simp: selectImagesForDeletion_filter)
next
  show "cutoffTime now cfg = now - Days cfg * 86400000000000"
    by (simp add: cutoffTime_def AddDate_days_def)
next
  show "keepCount cfg images =
     (if MaxImages cfg > 0 then min (MaxImages cfg) (int (length images)) else 0)"
    by (simp add: keepCount_def min_def)
next
  assume "MaxImages cfg = 0"
  then show "keepCount cfg images = 0" by (simp add: keepCount_def)
next
  assume le: "MaxImages cfg \<ge> int (length images)"
  have "nat (keepCount cfg images) \<ge> length images"
  proof (cases "MaxImages cfg > 0")
    case True
    with le have "keepCount cfg images = int (length images)"
      by (simp add: keepCount_def)
    then show ?thesis by simp
  next
    case False
    with le have "length images = 0" by linarith
    then show ?thesis by simp
  qed
  then show "selectImagesForDeletion now images cfg = []"
    by (simp add: selectImagesForDeletion_filter length_sortImagesByPushedTime)
qed

theorem selectImagesForDeletion_age_and_rank_witness:
  "ImagePushedAt (selectTestImages ! 2) = Some (daysAgo 12) \<and>
   selectTestImages ! 2 \<in> set (selectImagesForDeletion test_now selectTestImages
      \<lparr>DryRun = False, Days = 5, Region = [], MaxImages = 2\<rparr>) \<and>
   selectTestImages ! 1 \<notin> set (selectImagesForDeletion test_now selectTestImages
      \<lparr>DryRun = False, Days = 5, Region = [], MaxImages = 2\<rparr>)"
proof -
  let ?cfg = "\<lparr>DryRun = False, Days = 5, Region = [], MaxImages = 2\<rparr>"
  have known: "ImagePushedAt (selectTestImages ! 2) = Some (daysAgo 12)"
    by (simp add: fixture_defs)
  have age: "daysAgo 12 < cutoffTime test_now ?cfg"
    by (simp add: fixture_defs cutoffTime_def)
  have sorted: "sortImagesByPushedTime selectTestImages = selectTestImages"
    by (simp add: fixture_defs sort_eval)
  have keep: "keepCount ?cfg selectTestImages = 2"
    by (simp add: keepCount_def selectTestImages_def)
  have rank: "\<exists>i. i < length selectTestImages \<and> keepCount ?cfg selectTestImages \<le> int i \<and>
      sortImagesByPushedTime selectTestImages ! i = selectTestImages ! 2"
    unfolding sorted keep by (rule exI [of _ 2]) (simp add: selectTestImages_def)
  have known1: "ImagePushedAt (selectTestImages ! 1) = Some (daysAgo 8)"
    by (simp add: fixture_defs)
  have norank: "\<not> (\<exists>i. i < length selectTestImages \<and> keepCount ?cfg selectTestImages \<le> int i \<and>
      sortImagesByPushedTime selectTestImages ! i = selectTestImages ! 1)"
    unfolding sorted keep
    by (auto simp: fixture_defs less_Suc_eq numeral_eq_Suc)
  from selectImagesForDeletion_age_and_rank
         [of "selectTestImages ! 2" "daysAgo 12" test_now selectTestImages ?cfg]
       selectImagesForDeletion_age_and_rank
         [of "selectTestImages ! 1" "daysAgo 8" test_now selectTestImages ?cfg]
       known age rank known1 norank
  show ?thesis by blast
qed

text \<open>
  Claim C2. An image whose push time is unknown is never in the deletion set, whatever
  the policy and whatever its rank.
\<close>

theorem selectImagesForDeletion_unknown_time_kept:
  "ImagePushedAt img = None \<Longrightarrow> img \<notin> set (selectImagesForDeletion now images cfg)"
  by (auto simp: selectImagesForDeletion_filter)

theorem selectImagesForDeletion_unknown_time_kept_witness:
  "ImagePushedAt (nilTimeImages ! 0) = None \<and>
   nilTimeImages ! 0 \<notin> set (selectImagesForDeletion test_now nilTimeImages
      \<lparr>DryRun = False, Days = 10, Region = [], MaxImages = 0\<rparr>) \<and>
   nilTimeImages ! 1 \<in> set (selectImagesForDeletion test_now nilTimeImages
      \<lparr>DryRun = False, Days = 10, Region = [], MaxImages = 0\<rparr>)"
proof -
  have unknown: "ImagePushedAt (nilTimeImages ! 0) = None"
    by (simp add: nilTimeImages_def)
  have other: "nilTimeImages ! 1 \<in> set (selectImagesForDeletion test_now nilTimeImages
      \<lparr>DryRun = False, Days = 10, Region = [], MaxImages = 0\<rparr>)"
    by (simp add: selectImagesForDeletion_def keepCount_def cutoffTime_def fixture_defs sort_eval)
  from selectImagesForDeletion_unknown_time_kept [OF unknown] unknown other
  show ?thesis by blast
qed

section \<open>What the requests of a run are\<close>

lemma calls_log_Printf [simp]: "calls (log_Printf l w) = calls w"
  by (simp add: log_Printf_def)

lemma calls_record_call [simp]: "calls (record_call c w) = calls w @ [c]"
  by (simp add: record_call_def)

lemma logFailures_calls: "calls (snd (logFailures fs w)) = calls w"
  by (induction fs arbitrary: w) (auto split: option.splits)

lemma logFailures_returns:
  "\<forall>f\<in>set fs. FailureReason f \<noteq> None \<Longrightarrow> fst (logFailures fs w) = Return ()"
  by (induction fs arbitrary: w) (auto split: option.splits)

lemma dryRunReport_calls: "calls (snd (dryRunReport repoName imgs w)) = calls w"
  by (induction imgs arbitrary: w) (auto split: sum.splits)

lemma dryRunReport_returns:
  "(\<forall>img\<in>set imgs. ImageTags img \<noteq> [] \<or> ImageDigest img \<noteq> None)
   \<Longrightarrow> fst (dryRunReport repoName imgs w) = Return ()"
  by (induction imgs arbitrary: w) (auto simp: getImageTag_def split: sum.splits option.splits)

lemma getImageDetails_loop_no_delete:
  "getImageDetails_loop client repoName images tok w = Some y
   \<Longrightarrow> filter isBatchDelete (calls (snd y)) = filter isBatchDelete (calls w)"
  by (rule getImageDetails_loop.raw_induct
        [where P = "\<lambda>client repoName images tok w y.
           filter isBatchDelete (calls (snd y)) = filter isBatchDelete (calls w)"])
     (auto split: sum.splits option.splits if_splits simp: Let_def isBatchDelete_def)

lemma getImageDetails_no_delete:
  "getImageDetails client repoName w = Some (r, w')
   \<Longrightarrow> filter isBatchDelete (calls w') = filter isBatchDelete (calls w)"
  using getImageDetails_loop_no_delete [of client repoName "[]" None w "(r, w')"]
  by (simp add: getImageDetails_def)

section \<open>The batch loop\<close>

lemma afterBatch_calls:
  "calls (snd (afterBatch repoName images i result w)) =
     calls w @ [BatchDeleteImageCall repoName (batchIds images i)]"
  by (simp add: afterBatch_def logFailures_calls)

lemma afterBatch_returns:
  "\<forall>f\<in>set (Failures result). FailureReason f \<noteq> None
   \<Longrightarrow> fst (afterBatch repoName images i result w) = Return ()"
  by (simp add: afterBatch_def logFailures_returns)

lemma deleteImages_loop_done:
  "\<not> i < length images \<Longrightarrow> deleteImages_loop client repoName images i w = (Return None, w)"
  by (subst deleteImages_loop.simps) simp

lemma batch_slice:
  "i < length images \<Longrightarrow>
   take ((if i + batchSize > length images then length images else i + batchSize) - i)
     (drop i images) = take batchSize (drop i images)"
  by simp

lemma deleteImages_loop_step:
  "i < length images \<Longrightarrow>
   deleteImages_loop client repoName images i w =
     (case BatchDeleteImage client (calls w) repoName (batchIds images i) of
        Inl err \<Rightarrow>
          (Return (Some (Wrap ''failed to delete batch of images'' err)),
           record_call (BatchDeleteImageCall repoName (batchIds images i)) w)
      | Inr result \<Rightarrow>
          (case fst (afterBatch repoName images i result w) of
             Panic p \<Rightarrow> (Panic p, snd (afterBatch repoName images i result w))
           | Return u \<Rightarrow>
               deleteImages_loop client repoName images (i + batchSize)
                 (snd (afterBatch repoName images i result w))))"
  unfolding afterBatch_def batchIds_def
  by (subst deleteImages_loop.simps)
     (simp only: batch_slice Let_def if_True case_prod_beta)

lemma ceil_step:
  "i < n \<Longrightarrow> Suc ((n - (i + 100) + 99) div 100) = (n - i + 99) div (100::nat)"
  by (cases "i + 100 \<le> n") (simp_all add: div_add_self2 Suc_diff_le)

lemma batchIds_split:
  "batchIds images i @ map batchImageId (drop (i + batchSize) images) =
     map batchImageId (drop i images)"
proof -
  have "drop (i + batchSize) images = drop batchSize (drop i images)"
    by (simp add: add.commute)
  then have "batchIds images i @ map batchImageId (drop (i + batchSize) images) =
      map batchImageId (take batchSize (drop i images) @ drop batchSize (drop i images))"
    by (simp add: batchIds_def)
  then show ?thesis by (simp only: append_take_drop_id)
qed

lemma length_batchIds: "length (batchIds images i) \<le> 100"
  by (simp add: batchIds_def batchSize_def)

lemma batchCalls_0 [simp]: "batchCalls repoName images i 0 = []"
  by (simp add: batchCalls_def)

lemma batchCalls_Suc_front:
  "batchCalls repoName images i (Suc n) =
     BatchDeleteImageCall repoName (batchIds images i) #
     batchCalls repoName images (i + batchSize) n"
proof -
  have "[0..<Suc n] = 0 # map Suc [0..<n]"
    by (simp add: upt_conv_Cons map_Suc_upt del: upt_Suc)
  then show ?thesis
    by (simp add: batchCalls_def comp_def add.assoc del: upt_Suc)
qed

lemma deleteImages_loop_complete:
  "fst (deleteImages_loop client repoName images i w) = Return None \<Longrightarrow>
   \<exists>batches.
     calls (snd (deleteImages_loop client repoName images i w)) =
       calls w @ map (BatchDeleteImageCall repoName) batches \<and>
     length batches = (length images - i + 99) div 100 \<and>
     (\<forall>b\<in>set batches. length b \<le> 100) \<and>
     concat batches = map batchImageId (drop i images)"
proof (induction "length images - i" arbitrary: i w rule: less_induct)
  case less
  let ?R = "deleteImages_loop client repoName images i w"
  show ?case
  proof (cases "i < length images")
    case False
    then show ?thesis
      by (simp add: deleteImages_loop_done)
  next
    case True
    let ?ids = "batchIds images i"
    from less.prems True obtain result where
      ok: "BatchDeleteImage client (calls w) repoName ?ids = Inr result"
      by (cases "BatchDeleteImage client (calls w) repoName ?ids")
         (simp_all add: deleteImages_loop_step)
    let ?w2 = "snd (afterBatch repoName images i result w)"
    from less.prems True ok
    have rec: "?R = deleteImages_loop client repoName images (i + batchSize) ?w2"
      by (cases "fst (afterBatch repoName images i result w)")
         (simp_all add: deleteImages_loop_step)
    from True have "length images - (i + batchSize) < length images - i"
      by (simp add: batchSize_def)
    moreover from less.prems rec
    have "fst (deleteImages_loop client repoName images (i + batchSize) ?w2) = Return None"
      by simp
    ultimately obtain batches where
      b: "calls (snd (deleteImages_loop client repoName images (i + batchSize) ?w2)) =
            calls ?w2 @ map (BatchDeleteImageCall repoName) batches"
         "length batches = (length images - (i + batchSize) + 99) div 100"
         "\<forall>b\<in>set batches. length b \<le> 100"
         "concat batches = map batchImageId (drop (i + batchSize) images)"
      using less.hyps [of "i + batchSize" ?w2] by blast
    have "calls (snd ?R) = calls w @ map (BatchDeleteImageCall repoName) (?ids # batches)"
      using b(1) rec by (simp add: afterBatch_calls)
    moreover have "length (?ids # batches) = (length images - i + 99) div 100"
      using b(2) ceil_step [OF True] by (simp add: batchSize_def)
    moreover have "\<forall>b\<in>set (?ids # batches). length b \<le> 100"
      using b(3) length_batchIds by simp
    moreover have "concat (?ids # batches) = map batchImageId (drop i images)"
      using b(4) batchIds_split [of images i] by simp
    ultimately show ?thesis by blast
  qed
qed

lemma deleteImages_loop_succeeds:
  assumes "\<And>h ids. \<exists>out. BatchDeleteImage client h repoName ids = Inr out \<and>
             (\<forall>f\<in>set (Failures out). FailureReason f \<noteq> None)"
  shows "fst (deleteImages_loop client repoName images i w) = Return None"
proof (induction "length images - i" arbitrary: i w rule: less_induct)
  case less
  show ?case
  proof (cases "i < length images")
    case False
    then show ?thesis by (simp add: deleteImages_loop_done)
  next
    case True
    from assms obtain out where
      out: "BatchDeleteImage client (calls w) repoName (batchIds images i) = Inr out"
           "\<forall>f\<in>set (Failures out). FailureReason f \<noteq> None"
      by blast
    from out(2) have "fst (afterBatch repoName images i out w) = Return ()"
      by (rule afterBatch_returns)
    with True out(1)
    have "deleteImages_loop client repoName images i w =
          deleteImages_loop client repoName images (i + batchSize)
            (snd (afterBatch repoName images i out w))"
      by (simp add: deleteImages_loop_step)
    moreover from True have "length images - (i + batchSize) < length images - i"
      by (simp add: batchSize_def)
    ultimately show ?thesis
      using less.hyps [of "i + batchSize" "snd (afterBatch repoName images i out w)"] by simp
  qed
qed

lemma deleteImages_loop_failed:
  "fst (deleteImages_loop client repoName images i w) = Return (Some e) \<Longrightarrow>
   \<exists>n e'.
     calls (snd (deleteImages_loop client repoName images i w)) =
       calls w @ batchCalls repoName images i (Suc n) \<and>
     (\<forall>k<n. \<exists>out. BatchDeleteImage client (calls w @ batchCalls repoName images i k) repoName
                      (batchIds images (i + k * batchSize)) = Inr out) \<and>
     BatchDeleteImage client (calls w @ batchCalls repoName images i n) repoName
        (batchIds images (i + n * batchSize)) = Inl e' \<and>
     e = Wrap ''failed to delete batch of images'' e' \<and>
     i + n * batchSize < length images"
proof (induction "length images - i" arbitrary: i w rule: less_induct)
  case less
  let ?R = "deleteImages_loop client repoName images i w"
  have lt: "i < length images"
  proof (rule ccontr)
    assume "\<not> i < length images"
    with less.prems show False by (simp add: deleteImages_loop_done)
  qed
  let ?ids = "batchIds images i"
  let ?w1 = "record_call (BatchDeleteImageCall repoName ?ids) w"
  show ?case
  proof (cases "BatchDeleteImage client (calls w) repoName ?ids")
    case (Inl err)
    with lt have R: "?R = (Return (Some (Wrap ''failed to delete batch of images'' err)), ?w1)"
      by (simp add: deleteImages_loop_step)
    with less.prems have e: "e = Wrap ''failed to delete batch of images'' err" by simp
    have "calls (snd ?R) = calls w @ batchCalls repoName images i (Suc 0)"
      using R by (simp add: batchCalls_Suc_front)
    moreover have "BatchDeleteImage client (calls w @ batchCalls repoName images i 0) repoName
        (batchIds images (i + 0 * batchSize)) = Inl err"
      using Inl by simp
    ultimately show ?thesis using e lt
      by (intro exI [of _ 0] exI [of _ err]) simp
  next
    case (Inr result)
    let ?lf = "afterBatch repoName images i result w"
    have c: "calls (snd ?lf) = calls w @ [BatchDeleteImageCall repoName ?ids]"
      by (rule afterBatch_calls)
    have step: "?R = (case fst ?lf of Panic p \<Rightarrow> (Panic p, snd ?lf)
        | Return u \<Rightarrow> deleteImages_loop client repoName images (i + batchSize) (snd ?lf))"
      using lt Inr by (simp add: deleteImages_loop_step)
    with less.prems have rec:
      "?R = deleteImages_loop client repoName images (i + batchSize) (snd ?lf)"
      by (cases "fst ?lf") simp_all
    from lt have "length images - (i + batchSize) < length images - i"
      by (simp add: batchSize_def)
    moreover from less.prems rec
    have "fst (deleteImages_loop client repoName images (i + batchSize) (snd ?lf)) =
          Return (Some e)"
      by simp
    ultimately obtain n e' where
      ih: "calls (snd (deleteImages_loop client repoName images (i + batchSize) (snd ?lf))) =
             calls (snd ?lf) @ batchCalls repoName images (i + batchSize) (Suc n)"
          "\<forall>k<n. \<exists>out. BatchDeleteImage client
                 (calls (snd ?lf) @ batchCalls repoName images (i + batchSize) k) repoName
                 (batchIds images (i + batchSize + k * batchSize)) = Inr out"
          "BatchDeleteImage client
             (calls (snd ?lf) @ batchCalls repoName images (i + batchSize) n) repoName
             (batchIds images (i + batchSize + n * batchSize)) = Inl e'"
          "e = Wrap ''failed to delete batch of images'' e'"
          "i + batchSize + n * batchSize < length images"
      using less.hyps [of "i + batchSize" "snd ?lf"] by blast
    have front: "calls (snd ?lf) @ batchCalls repoName images (i + batchSize) k =
        calls w @ batchCalls repoName images i (Suc k)" for k
      using c by (simp add: batchCalls_Suc_front)
    have "calls (snd ?R) = calls w @ batchCalls repoName images i (Suc (Suc n))"
      using ih(1) rec front [of "Suc n"] by simp
    moreover have "\<forall>k<Suc n. \<exists>out. BatchDeleteImage client
          (calls w @ batchCalls repoName images i k) repoName
          (batchIds images (i + k * batchSize)) = Inr out"
    proof (intro allI impI)
      fix k assume k: "k < Suc n"
      show "\<exists>out. BatchDeleteImage client (calls w @ batchCalls repoName images i k) repoName
          (batchIds images (i + k * batchSize)) = Inr out"
      proof (cases k)
        case 0
        with Inr show ?thesis by simp
      next
        case (Suc k')
        with k have "k' < n" by simp
        with ih(2) obtain out where
          "BatchDeleteImage client
             (calls (snd ?lf) @ batchCalls repoName images (i + batchSize) k') repoName
             (batchIds images (i + batchSize + k' * batchSize)) = Inr out"
          by blast
        then have "BatchDeleteImage client (calls w @ batchCalls repoName images i (Suc k'))
             repoName (batchIds images (i + Suc k' * batchSize)) = Inr out"
          by (simp only: front [of k'] mult_Suc add.assoc)
        with Suc show ?thesis by blast
      qed
    qed
    moreover have "BatchDeleteImage client (calls w @ batchCalls repoName images i (Suc n))
        repoName (batchIds images (i + Suc n * batchSize)) = Inl e'"
      using ih(3) front [of n] by (simp add: add.assoc)
    moreover have "i + Suc n * batchSize < length images"
      using ih(5) by (simp add: add.assoc)
    ultimately show ?thesis using ih(4)
      by (intro exI [of _ "Suc n"] exI [of _ e']) simp
  qed
qed

section \<open>Fetching\<close>

lemma addSizes_sum:
  "addSizes imgs freed =
     freed + sum_list (map (\<lambda>img. case ImageSizeInBytes img of None \<Rightarrow> 0 | Some n \<Rightarrow> n) imgs)"
  by (induction imgs arbitrary: freed) (auto split: option.splits)

text \<open>
  The sizes are added in \<^verbatim>\<open>int64\<close>. Read as a signed number, the result is the sum of
  the known sizes whenever that sum fits in 64 bits.
\<close>

lemma addSizes_word_of_int:
  "addSizes imgs freed =
     freed + word_of_int (sum_list (map (\<lambda>img. case ImageSizeInBytes img of None \<Rightarrow> 0
                                               | Some n \<Rightarrow> sint n) imgs))"
  by (induction imgs arbitrary: freed) (auto split: option.splits simp: word_of_int_hom_syms)

lemma addSizes_no_overflow:
  assumes "- (2 ^ 63) \<le> sum_list (map (\<lambda>img. case ImageSizeInBytes img of None \<Rightarrow> 0
                                               | Some n \<Rightarrow> sint n) imgs)"
    and "sum_list (map (\<lambda>img. case ImageSizeInBytes img of None \<Rightarrow> 0
                                 | Some n \<Rightarrow> sint n) imgs) < 2 ^ 63"
  shows "sint (addSizes imgs 0) =
           sum_list (map (\<lambda>img. case ImageSizeInBytes img of None \<Rightarrow> 0
                                   | Some n \<Rightarrow> sint n) imgs)"
  using assms by (simp add: addSizes_word_of_int sint_sbintrunc' signed_take_bit_int_eq_self)

text \<open>
  Claim C10. When a page of \<^verbatim>\<open>ListImages\<close> carries no identifiers, \<^verbatim>\<open>getImageDetails\<close>
  sends no \<^verbatim>\<open>DescribeImages\<close> request for it: the only request added is the
  \<^verbatim>\<open>ListImages\<close> one, the images collected so far are unchanged, and the loop goes
  on with the page's continuation token, or returns when there is none. For an empty
  repository it returns no image and no error after that single request.
\<close>

theorem getImageDetails_empty_page:
  "(ListImages client (calls w) repoName nextToken = Inr listResp \<and> ImageIds listResp = []
      \<longrightarrow> getImageDetails_loop client repoName images nextToken w =
            (case NextToken_images listResp of
               None \<Rightarrow> Some (Inr images, w\<lparr>calls := calls w @ [ListImagesCall repoName nextToken]\<rparr>)
             | Some t \<Rightarrow>
                 getImageDetails_loop client repoName images (Some t)
                   (w\<lparr>calls := calls w @ [ListImagesCall repoName nextToken]\<rparr>))) \<and>
   (ListImages client (calls w) repoName None = Inr \<lparr>ImageIds = [], NextToken_images = None\<rparr>
      \<longrightarrow> getImageDetails client repoName w =
            Some (Inr [], w\<lparr>calls := calls w @ [ListImagesCall repoName None]\<rparr>))"
proof (intro conjI impI)
  assume "ListImages client (calls w) repoName nextToken = Inr listResp \<and> ImageIds listResp = []"
  then show "getImageDetails_loop client repoName images nextToken w =
            (case NextToken_images listResp of
               None \<Rightarrow> Some (Inr images, w\<lparr>calls := calls w @ [ListImagesCall repoName nextToken]\<rparr>)
             | Some t \<Rightarrow>
                 getImageDetails_loop client repoName images (Some t)
                   (w\<lparr>calls := calls w @ [ListImagesCall repoName nextToken]\<rparr>))"
    by (subst getImageDetails_loop.simps) (simp add: Let_def record_call_def)
next
  assume "ListImages client (calls w) repoName None = Inr \<lparr>ImageIds = [], NextToken_images = None\<rparr>"
  then show "getImageDetails client repoName w =
            Some (Inr [], w\<lparr>calls := calls w @ [ListImagesCall repoName None]\<rparr>)"
    unfolding getImageDetails_def
    by (subst getImageDetails_loop.simps) (simp add: record_call_def)
qed

theorem getImageDetails_empty_page_witness:
  "ListImages pagedClient (calls World0) ''test-repo'' None =
     Inr \<lparr>ImageIds = [], NextToken_images = Some ''page2''\<rparr> \<and>
   getImageDetails pagedClient ''test-repo'' World0 =
     Some (Inr [newerImage],
       \<lparr>calls = [ListImagesCall ''test-repo'' None,
                 ListImagesCall ''test-repo'' (Some ''page2''),
                 DescribeImagesCall ''test-repo'' [tagId ''latest'']],
        logged = []\<rparr>) \<and>
   ListImages emptyRepoClient (calls World0) ''empty-repo'' None =
     Inr \<lparr>ImageIds = [], NextToken_images = None\<rparr> \<and>
   getImageDetails emptyRepoClient ''empty-repo'' World0 =
     Some (Inr [], \<lparr>calls = [ListImagesCall ''empty-repo'' None], logged = []\<rparr>)"
proof -
  have page1: "ListImages pagedClient (calls World0) ''test-repo'' None =
      Inr \<lparr>ImageIds = [], NextToken_images = Some ''page2''\<rparr>"
    by (simp add: pagedClient_def)
  have page2: "getImageDetails_loop pagedClient ''test-repo'' [] (Some ''page2'')
       (World0\<lparr>calls := calls World0 @ [ListImagesCall ''test-repo'' None]\<rparr>) =
     Some (Inr [newerImage],
       \<lparr>calls = [ListImagesCall ''test-repo'' None,
                 ListImagesCall ''test-repo'' (Some ''page2''),
                 DescribeImagesCall ''test-repo'' [tagId ''latest'']],
        logged = []\<rparr>)"
    by (subst getImageDetails_loop.simps)
       (simp add: pagedClient_def World0_def record_call_def Let_def)
  have empty: "ListImages emptyRepoClient (calls World0) ''empty-repo'' None =
      Inr \<lparr>ImageIds = [], NextToken_images = None\<rparr>"
    by (simp add: emptyRepoClient_def mockClient_def)
  from getImageDetails_empty_page
         [of pagedClient World0 "''test-repo''" None
             "\<lparr>ImageIds = [], NextToken_images = Some ''page2''\<rparr>" "[]"]
       page1 page2
  have "getImageDetails pagedClient ''test-repo'' World0 =
     Some (Inr [newerImage],
       \<lparr>calls = [ListImagesCall ''test-repo'' None,
                 ListImagesCall ''test-repo'' (Some ''page2''),
                 DescribeImagesCall ''test-repo'' [tagId ''latest'']],
        logged = []\<rparr>)"
    by (simp add: getImageDetails_def)
  moreover from getImageDetails_empty_page
         [of emptyRepoClient World0 "''empty-repo''" None
             "\<lparr>ImageIds = [], NextToken_images = None\<rparr>" "[]"] empty
  have "getImageDetails emptyRepoClient ''empty-repo'' World0 =
     Some (Inr [], \<lparr>calls = [ListImagesCall ''empty-repo'' None], logged = []\<rparr>)"
    by (simp add: World0_def)
  ultimately show ?thesis using page1 empty by simp
qed

section \<open>One repository\<close>

lemma processRepository_empty_selection:
  assumes "getImageDetails client repoName (log_Printf (LogProcessing repoName) w) =
             Some (Inr images, w1)"
    and "selectImagesForDeletion (clock (calls w1)) images cfg = []"
  shows "processRepository clock client repoName cfg w =
           Some (Return (\<lparr>RepositoriesProcessed = 1, ImagesDeleted = 0, SpaceFreed = 0\<rparr>, None),
                 log_Printf (LogNoImages repoName)
                   (log_Printf (LogFound (length images) repoName) w1))"
  using assms by (simp add: processRepository_def)

lemma processRepository_fetch_calls:
  assumes "getImageDetails client repoName (log_Printf (LogProcessing repoName) w) =
             Some (r, w1)"
  shows "filter isBatchDelete (calls w1) = filter isBatchDelete (calls w)"
  using getImageDetails_no_delete [OF assms] by simp

text \<open>
  Claim C8, as the code has it. When the deletion set computed for a repository is empty,
  \<^verbatim>\<open>processRepository\<close> returns a nil error and a summary whose \<open>ImagesDeleted\<close> and
  \<open>SpaceFreed\<close> are zero and whose \<open>RepositoriesProcessed\<close> is 1, and it sends no
  delete request.
\<close>

theorem processRepository_nothing_to_delete:
  assumes "getImageDetails client repoName (log_Printf (LogProcessing repoName) w) =
             Some (Inr images, w1)"
    and "selectImagesForDeletion (clock (calls w1)) images cfg = []"
  shows "\<exists>w'. processRepository clock client repoName cfg w =
           Some (Return (\<lparr>RepositoriesProcessed = 1, ImagesDeleted = 0, SpaceFreed = 0\<rparr>, None),
                 w') \<and>
         filter isBatchDelete (calls w') = filter isBatchDelete (calls w)"
  using processRepository_empty_selection [of client repoName w images w1 clock cfg]
        processRepository_fetch_calls [OF assms(1)] assms
  by simp

lemma emptyRepo_fetch:
  "getImageDetails emptyRepoClient ''empty-repo'' (log_Printf (LogProcessing ''empty-repo'') World0)
     = Some (Inr [], \<lparr>calls = [ListImagesCall ''empty-repo'' None],
                      logged = [LogProcessing ''empty-repo'']\<rparr>)"
  unfolding getImageDetails_def
  by (subst getImageDetails_loop.simps)
     (simp add: client_defs World0_def record_call_def log_Printf_def)

lemma select_nothing: "selectImagesForDeletion now [] cfg = []"
  by (simp add: selectImagesForDeletion_def sort_eval)

theorem processRepository_nothing_to_delete_witness:
  "getImageDetails emptyRepoClient ''empty-repo''
      (log_Printf (LogProcessing ''empty-repo'') World0) =
     Some (Inr [], \<lparr>calls = [ListImagesCall ''empty-repo'' None],
                     logged = [LogProcessing ''empty-repo'']\<rparr>) \<and>
   selectImagesForDeletion (test_clock [ListImagesCall ''empty-repo'' None]) []
      (testConfig False 10) = [] \<and>
   (\<exists>w'. processRepository test_clock emptyRepoClient ''empty-repo'' (testConfig False 10) World0 =
           Some (Return (\<lparr>RepositoriesProcessed = 1, ImagesDeleted = 0, SpaceFreed = 0\<rparr>, None),
                 w') \<and>
         filter isBatchDelete (calls w') = filter isBatchDelete (calls World0))"
  using processRepository_nothing_to_delete
          [of emptyRepoClient "''empty-repo''" World0 "[]"
              "\<lparr>calls = [ListImagesCall ''empty-repo'' None],
                logged = [LogProcessing ''empty-repo'']\<rparr>"
              test_clock "testConfig False 10"]
        emptyRepo_fetch select_nothing
  by simp

text \<open>
  Against claim C8 as stated: for the empty repository of the test suite the deletion set
  is empty and the summary returned counts one repository processed, so not every
  counter of it is zero.
\<close>

theorem processRepository_zero_summary_counterexample:
  "selectImagesForDeletion test_now [] (testConfig False 10) = [] \<and>
   processRepository test_clock emptyRepoClient ''empty-repo'' (testConfig False 10) World0 =
     Some (Return (\<lparr>RepositoriesProcessed = 1, ImagesDeleted = 0, SpaceFreed = 0\<rparr>, None),
           \<lparr>calls = [ListImagesCall ''empty-repo'' None],
            logged = [LogProcessing ''empty-repo'', LogFound 0 ''empty-repo'',
                      LogNoImages ''empty-repo'']\<rparr>) \<and>
   RepositoriesProcessed \<lparr>RepositoriesProcessed = 1, ImagesDeleted = 0, SpaceFreed = 0\<rparr> \<noteq> 0"
  using processRepository_empty_selection
          [of emptyRepoClient "''empty-repo''" World0 "[]"
              "\<lparr>calls = [ListImagesCall ''empty-repo'' None],
                logged = [LogProcessing ''empty-repo'']\<rparr>"
              test_clock "testConfig False 10"]
        emptyRepo_fetch
  by (simp add: select_nothing log_Printf_def)

lemma processRepository_dry_run_returns:
  assumes dry: "DryRun cfg"
    and fetch: "getImageDetails client repoName (log_Printf (LogProcessing repoName) w) =
             Some (Inr images, w1)"
    and named: "\<forall>img\<in>set (selectImagesForDeletion (clock (calls w1)) images cfg).
             ImageTags img \<noteq> [] \<or> ImageDigest img \<noteq> None"
  shows "\<exists>w'. processRepository clock client repoName cfg w =
           Some (Return
             (\<lparr>RepositoriesProcessed = 1,
               ImagesDeleted = int (length (selectImagesForDeletion (clock (calls w1)) images cfg)),
               SpaceFreed = sum_list (map (\<lambda>img. case ImageSizeInBytes img of None \<Rightarrow> 0
                                                    | Some n \<Rightarrow> n)
                             (selectImagesForDeletion (clock (calls w1)) images cfg))\<rparr>, None),
             w') \<and>
         calls w' = calls w1"
proof (cases "selectImagesForDeletion (clock (calls w1)) images cfg = []")
  case True
  with processRepository_empty_selection [of client repoName w images w1 clock cfg] fetch
  show ?thesis by simp
next
  case False
  let ?sel = "selectImagesForDeletion (clock (calls w1)) images cfg"
  let ?w3 = "log_Printf (LogSelected (length ?sel) repoName)
               (log_Printf (LogFound (length images) repoName) w1)"
  from named have "fst (dryRunReport repoName ?sel ?w3) = Return ()"
    by (rule dryRunReport_returns)
  moreover have "calls (snd (dryRunReport repoName ?sel ?w3)) = calls w1"
    by (simp add: dryRunReport_calls)
  ultimately show ?thesis using dry fetch False
    by (simp add: processRepository_def Let_def case_prod_beta addSizes_sum)
qed

lemma processRepository_dry_run_calls:
  assumes dry: "DryRun cfg"
    and run: "processRepository clock client repoName cfg w = Some (r, w')"
  shows "filter isBatchDelete (calls w') = filter isBatchDelete (calls w)"
proof (cases "getImageDetails client repoName (log_Printf (LogProcessing repoName) w)")
  case None
  with run show ?thesis by (simp add: processRepository_def)
next
  case (Some y)
  obtain res w1 where y: "y = (res, w1)" by (cases y)
  from Some y have frame: "filter isBatchDelete (calls w1) = filter isBatchDelete (calls w)"
    using processRepository_fetch_calls by blast
  show ?thesis
  proof (cases res)
    case (Inl err)
    with Some y run frame show ?thesis by (auto simp: processRepository_def)
  next
    case (Inr images)
    let ?sel = "selectImagesForDeletion (clock (calls w1)) images cfg"
    let ?w3 = "log_Printf (LogSelected (length ?sel) repoName)
               (log_Printf (LogFound (length images) repoName) w1)"
    have "calls (snd (dryRunReport repoName ?sel ?w3)) = calls w1"
      by (simp add: dryRunReport_calls)
    with Some y Inr run dry frame show ?thesis
      by (cases "fst (dryRunReport repoName ?sel ?w3)")
         (auto simp: processRepository_def Let_def case_prod_beta split: if_splits)
  qed
qed

text \<open>
  Claim C4. In dry-run mode \<^verbatim>\<open>processRepository\<close> sends no delete request, whatever the
  registry answers and however the call ends. When the images were fetched, it returns
  a nil error and a summary that counts the selected images and adds up their known
  sizes, a missing size adding nothing (the sum is taken in \<^verbatim>\<open>int64\<close>); the report it
  logs needs every selected image to have a tag or a digest.
\<close>

theorem processRepository_dry_run:
  assumes "DryRun cfg"
  shows "(\<forall>r w'. processRepository clock client repoName cfg w = Some (r, w') \<longrightarrow>
            filter isBatchDelete (calls w') = filter isBatchDelete (calls w)) \<and>
         (\<forall>images w1.
            getImageDetails client repoName (log_Printf (LogProcessing repoName) w) =
              Some (Inr images, w1) \<and>
            (\<forall>img\<in>set (selectImagesForDeletion (clock (calls w1)) images cfg).
               ImageTags img \<noteq> [] \<or> ImageDigest img \<noteq> None) \<longrightarrow>
            (\<exists>w'. processRepository clock client repoName cfg w =
               Some (Return
                 (\<lparr>RepositoriesProcessed = 1,
                   ImagesDeleted =
                     int (length (selectImagesForDeletion (clock (calls w1)) images cfg)),
                   SpaceFreed =
                     sum_list (map (\<lambda>img. case ImageSizeInBytes img of None \<Rightarrow> 0 | Some n \<Rightarrow> n)
                       (selectImagesForDeletion (clock (calls w1)) images cfg))\<rparr>, None),
                 w') \<and>
               calls w' = calls w1))"
proof (intro conjI allI impI)
  fix r w'
  assume "processRepository clock client repoName cfg w = Some (r, w')"
  with assms show "filter isBatchDelete (calls w') = filter isBatchDelete (calls w)"
    by (rule processRepository_dry_run_calls)
next
  fix images w1
  assume "getImageDetails client repoName (log_Printf (LogProcessing repoName) w) =
              Some (Inr images, w1) \<and>
            (\<forall>img\<in>set (selectImagesForDeletion (clock (calls w1)) images cfg).
               ImageTags img \<noteq> [] \<or> ImageDigest img \<noteq> None)"
  with assms processRepository_dry_run_returns [of cfg client repoName w images w1 clock]
  show "\<exists>w'. processRepository clock client repoName cfg w =
               Some (Return
                 (\<lparr>RepositoriesProcessed = 1,
                   ImagesDeleted =
                     int (length (selectImagesForDeletion (clock (calls w1)) images cfg)),
                   SpaceFreed =
                     sum_list (map (\<lambda>img. case ImageSizeInBytes img of None \<Rightarrow> 0 | Some n \<Rightarrow> n)
                       (selectImagesForDeletion (clock (calls w1)) images cfg))\<rparr>, None),
                 w') \<and>
               calls w' = calls w1"
    by blast
qed


lemma processTest_fetch:
  "getImageDetails processTestClient ''test-repo''
      (log_Printf (LogProcessing ''test-repo'') World0) =
     Some (Inr [olderImage, newerImage],
           \<lparr>calls = [ListImagesCall ''test-repo'' None,
                     DescribeImagesCall ''test-repo'' [tagId ''v1'', tagId ''latest'']],
            logged = [LogProcessing ''test-repo'']\<rparr>)"
  unfolding getImageDetails_def
  by (subst getImageDetails_loop.simps)
     (simp add: processTestClient_def mockClient_def World0_def record_call_def log_Printf_def
        Let_def)

lemma processTest_select:
  "selectImagesForDeletion (test_clock h) [olderImage, newerImage] (testConfig dry 10) =
     [olderImage]"
  by (simp add: selectImagesForDeletion_def keepCount_def cutoffTime_def fixture_defs sort_eval
      client_defs)

theorem processRepository_dry_run_witness:
  "DryRun (testConfig True 10) \<and>
   (\<exists>w'. processRepository test_clock processTestClient ''test-repo'' (testConfig True 10) World0 =
       Some (Return (\<lparr>RepositoriesProcessed = 1, ImagesDeleted = 1, SpaceFreed = 1000000\<rparr>,
                     None), w') \<and>
       filter isBatchDelete (calls w') = [])"
proof -
  let ?cfg = "testConfig True 10"
  let ?w1 = "\<lparr>calls = [ListImagesCall ''test-repo'' None,
                     DescribeImagesCall ''test-repo'' [tagId ''v1'', tagId ''latest'']],
            logged = [LogProcessing ''test-repo'']\<rparr>"
  have dry: "DryRun ?cfg" by (simp add: testConfig_def)
  note dr = processRepository_dry_run
    [OF dry, of test_clock processTestClient "''test-repo''" World0]
  have named: "\<forall>img\<in>set (selectImagesForDeletion (test_clock (calls ?w1))
      [olderImage, newerImage] ?cfg). ImageTags img \<noteq> [] \<or> ImageDigest img \<noteq> None"
    by (simp add: processTest_select) (simp add: olderImage_def)
  from dr processTest_fetch named obtain w' where
    run: "processRepository test_clock processTestClient ''test-repo'' ?cfg World0 =
       Some (Return
         (\<lparr>RepositoriesProcessed = 1,
           ImagesDeleted = int (length (selectImagesForDeletion (test_clock (calls ?w1))
              [olderImage, newerImage] ?cfg)),
           SpaceFreed = sum_list (map (\<lambda>img. case ImageSizeInBytes img of None \<Rightarrow> 0 | Some n \<Rightarrow> n)
              (selectImagesForDeletion (test_clock (calls ?w1))
                 [olderImage, newerImage] ?cfg))\<rparr>, None), w')"
    by blast
  from dr run have "filter isBatchDelete (calls w') = filter isBatchDelete (calls World0)"
    by blast
  with run dry show ?thesis
    by (simp add: processTest_select World0_def) (simp add: olderImage_def)
qed

section \<open>Batches\<close>

lemma length_manyImages: "length (manyImages n) = n"
  by (simp add: manyImages_def)

text \<open>
  Claim C3, as the code has it. Whenever \<^verbatim>\<open>deleteImages\<close> returns nil for a list of
  \<open>N\<close> images, that is when no delete request ended the loop with an error, the
  requests it sent are exactly \<open>ceil (N / 100)\<close> delete requests for the repository,
  each with at most 100 identifiers, and their identifier lists, one after the other,
  are the identifiers of the \<open>N\<close> images in order, each image once. With \<open>N = 0\<close> it
  sends nothing.
\<close>

theorem deleteImages_batches:
  assumes "fst (deleteImages client repoName images w) = Return None"
  shows "\<exists>batches.
           calls (snd (deleteImages client repoName images w)) =
             calls w @ map (BatchDeleteImageCall repoName) batches \<and>
           length batches = (length images + 99) div 100 \<and>
           (\<forall>b\<in>set batches. length b \<le> 100) \<and>
           concat batches = map batchImageId images"
  using deleteImages_loop_complete [of client repoName images 0 w] assms
  by (simp add: deleteImages_def)

theorem deleteImages_batches_witness:
  "fst (deleteImages deleteOkClient ''test-repo'' (manyImages 150) World0) = Return None \<and>
   length (calls (snd (deleteImages deleteOkClient ''test-repo'' (manyImages 150) World0))) = 2 \<and>
   fst (deleteImages deleteOkClient ''test-repo'' [] World0) = Return None \<and>
   calls (snd (deleteImages deleteOkClient ''test-repo'' [] World0)) = []"
proof -
  have ok: "fst (deleteImages deleteOkClient ''test-repo'' imgs World0) = Return None" for imgs
    unfolding deleteImages_def
    by (rule deleteImages_loop_succeeds) (simp add: deleteOkClient_def mockClient_def)
  from deleteImages_batches [OF ok [of "manyImages 150"]]
  have "length (calls (snd (deleteImages deleteOkClient ''test-repo'' (manyImages 150) World0)))
        = 2"
    by (auto simp: length_manyImages World0_def)
  moreover from deleteImages_batches [OF ok [of "[]"]]
  have "calls (snd (deleteImages deleteOkClient ''test-repo'' [] World0)) = []"
    by (auto simp: World0_def)
  ultimately show ?thesis using ok by simp
qed

text \<open>
  Against claim C3 as stated: with 101 images and a registry that fails the delete
  request, \<^verbatim>\<open>deleteImages\<close> returns the error after one request, of 100 identifiers,
  where \<open>ceil (101 / 100)\<close> is 2; the last image is in no request.
\<close>

theorem deleteImages_batches_counterexample:
  "length (manyImages 101) = 101 \<and>
   deleteImages deleteErrorClient ''test-repo'' (manyImages 101) World0 =
     (Return (Some (Wrap ''failed to delete batch of images'' deleteError)),
      \<lparr>calls = [BatchDeleteImageCall ''test-repo''
                  (map batchImageId (take 100 (manyImages 101)))],
       logged = []\<rparr>) \<and>
   (101 + 99) div 100 = (2::nat)"
  by (simp add: length_manyImages deleteImages_def deleteImages_loop_step batchIds_def
      batchSize_def deleteErrorClient_def mockClient_def World0_def record_call_def)

section \<open>Naming an image\<close>

lemma getImageTag_first_tag:
  "ImageTags img = t # ts \<Longrightarrow>
   getImageTag img = Inr t \<and> batchImageId img = \<lparr>ImageTag = Some t, IdImageDigest = None\<rparr>"
  by (simp add: getImageTag_def batchImageId_def)

lemma getImageTag_digest:
  "ImageTags img = [] \<Longrightarrow> ImageDigest img = Some d \<Longrightarrow>
   getImageTag img = Inr d \<and> batchImageId img = \<lparr>ImageTag = None, IdImageDigest = Some d\<rparr>"
  by (simp add: getImageTag_def batchImageId_def)

lemma malformed_fetch:
  "getImageDetails malformedClient ''test-repo''
      (log_Printf (LogProcessing ''test-repo'') World0) =
     Some (Inr [malformedImage],
           \<lparr>calls = [ListImagesCall ''test-repo'' None,
                     DescribeImagesCall ''test-repo'' [\<lparr>ImageTag = None, IdImageDigest = None\<rparr>]],
            logged = [LogProcessing ''test-repo'']\<rparr>)"
  unfolding getImageDetails_def
  by (subst getImageDetails_loop.simps)
     (simp add: malformedClient_def mockClient_def World0_def record_call_def log_Printf_def
        Let_def)

lemma malformed_select:
  "selectImagesForDeletion (test_clock h) [malformedImage] (testConfig dry 10) =
     [malformedImage]"
  by (simp add: selectImagesForDeletion_def keepCount_def cutoffTime_def fixture_defs sort_eval
      client_defs)

text \<open>
  Claim C7, at the input where the code departs from it: an old image with neither a tag
  nor a digest. \<^verbatim>\<open>getImageTag\<close> dereferences the nil digest, so the dry run that reports
  the image panics instead of naming it \<open>unknown\<close>; the identifier built for the delete
  request has neither field, and \<^verbatim>\<open>getImageIdString\<close> is the function that names such
  an identifier \<open>unknown\<close>.
\<close>

theorem getImageTag_neither_tag_nor_digest:
  "getImageTag malformedImage = Inl NilPointerDereference \<and>
   map_option fst (processRepository test_clock malformedClient ''test-repo''
      (testConfig True 10) World0) = Some (Panic NilPointerDereference) \<and>
   batchImageId malformedImage = \<lparr>ImageTag = None, IdImageDigest = None\<rparr> \<and>
   getImageIdString (Some (batchImageId malformedImage)) = ''unknown''"
proof -
  have tag: "getImageTag malformedImage = Inl NilPointerDereference"
    by (simp add: getImageTag_def malformedImage_def)
  have "map_option fst (processRepository test_clock malformedClient ''test-repo''
      (testConfig True 10) World0) = Some (Panic NilPointerDereference)"
    by (simp add: processRepository_def malformed_fetch malformed_select tag Let_def)
       (simp add: testConfig_def)
  moreover have "batchImageId malformedImage = \<lparr>ImageTag = None, IdImageDigest = None\<rparr>"
    by (simp add: batchImageId_def malformedImage_def)
  ultimately show ?thesis using tag by (simp add: getImageIdString_def)
qed

section \<open>All repositories\<close>

lemma processRepositories_error_step:
  "processRepository clock client name cfg w = Some (Return (repoSummary, Some e), w1) \<Longrightarrow>
   processRepositories clock cfg client (\<lparr>RepositoryName = Some name\<rparr> # rest) summary w =
     processRepositories clock cfg client rest summary (log_Printf (LogRepoError name e) w1)"
  by simp

lemma processRepositories_ok_step:
  "processRepository clock client name cfg w = Some (Return (repoSummary, None), w1) \<Longrightarrow>
   processRepositories clock cfg client (\<lparr>RepositoryName = Some name\<rparr> # rest) summary w =
     processRepositories clock cfg client rest
       (summary\<lparr>ImagesDeleted := ImagesDeleted summary + ImagesDeleted repoSummary,
                SpaceFreed := SpaceFreed summary + SpaceFreed repoSummary\<rparr>) w1"
  by simp

lemma processRepositories_count:
  "processRepositories clock cfg client repos summary w = Some (Return s, w') \<Longrightarrow>
   RepositoriesProcessed s = RepositoriesProcessed summary"
proof (induction repos arbitrary: summary w)
  case Nil
  then show ?case by simp
next
  case (Cons repo rest)
  from Cons.prems obtain name where name: "RepositoryName repo = Some name"
    by (cases "RepositoryName repo") simp_all
  from Cons.prems name obtain r w1 where
    run: "processRepository clock client name cfg w = Some (r, w1)"
    by (cases "processRepository clock client name cfg w") auto
  from Cons.prems name run obtain repoSummary err where r: "r = Return (repoSummary, err)"
    by (cases r) auto
  show ?case
  proof (cases err)
    case None
    with Cons.prems name run r
    have "processRepositories clock cfg client rest
       (summary\<lparr>ImagesDeleted := ImagesDeleted summary + ImagesDeleted repoSummary,
                SpaceFreed := SpaceFreed summary + SpaceFreed repoSummary\<rparr>) w1 =
       Some (Return s, w')"
      by simp
    from Cons.IH [OF this] show ?thesis by simp
  next
    case (Some e)
    with Cons.prems name run r
    have "processRepositories clock cfg client rest summary
            (log_Printf (LogRepoError name e) w1) = Some (Return s, w')"
      by simp
    from Cons.IH [OF this] show ?thesis .
  qed
qed

lemma CleanupWithClient_fetch_failed:
  "getRepositories client w = Some (Inl e, w1) \<Longrightarrow>
   CleanupWithClient clock cfg client w =
     Some (Return (\<lparr>RepositoriesProcessed = 0, ImagesDeleted = 0, SpaceFreed = 0\<rparr>, Some e), w1)"
  by (simp add: CleanupWithClient_def)

lemma CleanupWithClient_returned:
  assumes "CleanupWithClient clock cfg client w = Some (Return (s, err), w')"
  shows "(err \<noteq> None \<longleftrightarrow> (\<exists>e w1. getRepositories client w = Some (Inl e, w1))) \<and>
         (\<forall>repos w1. getRepositories client w = Some (Inr repos, w1) \<longrightarrow>
            RepositoriesProcessed s = int (length repos))"
proof (cases "getRepositories client w")
  case None
  with assms show ?thesis by (simp add: CleanupWithClient_def)
next
  case (Some y)
  obtain res w1 where y: "y = (res, w1)" by (cases y)
  show ?thesis
  proof (cases res)
    case (Inl e)
    with Some y assms show ?thesis by (auto simp: CleanupWithClient_def)
  next
    case (Inr repos)
    let ?start = "\<lparr>RepositoriesProcessed = int (length repos), ImagesDeleted = 0,
                   SpaceFreed = 0\<rparr>"
    from Some y Inr assms have
      "processRepositories clock cfg client repos ?start w1 = Some (Return s, w')" and
      "err = None"
      by (auto simp: CleanupWithClient_def split: option.splits outcome.splits)
    from processRepositories_count [OF this(1)] \<open>err = None\<close> Some y Inr
    show ?thesis by simp
  qed
qed

lemma processRepositories_returns:
  assumes total: "\<And>name w0. \<exists>r w1. processRepository clock client name cfg w0 = Some (Return r, w1)"
    and named: "\<forall>repo\<in>set repos. RepositoryName repo \<noteq> None"
  shows "\<exists>s w'. processRepositories clock cfg client repos summary w = Some (Return s, w')"
  using named
proof (induction repos arbitrary: summary w)
  case Nil
  then show ?case by simp
next
  case (Cons repo rest)
  then obtain name where name: "RepositoryName repo = Some name" by auto
  from total obtain repoSummary err w1 where
    run: "processRepository clock client name cfg w = Some (Return (repoSummary, err), w1)"
    by (metis surj_pair)
  from Cons.prems have rest: "\<forall>repo\<in>set rest. RepositoryName repo \<noteq> None" by simp
  show ?case
  proof (cases err)
    case None
    with name run Cons.IH [OF rest] show ?thesis by simp
  next
    case (Some e)
    with name run Cons.IH [OF rest] show ?thesis by simp
  qed
qed

lemma CleanupWithClient_returns:
  assumes "getRepositories client w = Some (Inr repos, w1)"
    and "\<forall>repo\<in>set repos. RepositoryName repo \<noteq> None"
    and "\<forall>name w0. \<exists>r w2. processRepository clock client name cfg w0 = Some (Return r, w2)"
  shows "\<exists>s w'. CleanupWithClient clock cfg client w = Some (Return (s, None), w')"
proof -
  from assms(3) have "\<exists>r w2. processRepository clock client name cfg w0 = Some (Return r, w2)"
    for name w0 by blast
  from processRepositories_returns [of clock client cfg repos, OF this assms(2)]
  obtain s w' where "processRepositories clock cfg client repos
      \<lparr>RepositoriesProcessed = int (length repos), ImagesDeleted = 0, SpaceFreed = 0\<rparr> w1 =
      Some (Return s, w')"
    by blast
  with assms(1) show ?thesis by (simp add: CleanupWithClient_def)
qed

text \<open>
  Claim C5. \<^verbatim>\<open>CleanupWithClient\<close> returns the error of a failed repository listing, with
  an empty summary, and whenever it returns, its error is non-nil exactly when the
  listing failed. When the listing gave \<open>repos\<close>, the summary returned has
  \<open>RepositoriesProcessed = length repos\<close>, whatever happened to each repository. In the
  loop, a repository whose processing returns an error leaves \<open>ImagesDeleted\<close> and
  \<open>SpaceFreed\<close> as they were and the loop goes on with the next repository; one that is
  processed without error adds its two counters. So when the listing succeeds, every
  repository has a name and processing a repository always returns, \<^verbatim>\<open>CleanupWithClient\<close>
  returns a nil error.
\<close>

theorem CleanupWithClient_absorbs_repository_errors:
  "(\<forall>e w1. getRepositories client w = Some (Inl e, w1) \<longrightarrow>
      CleanupWithClient clock cfg client w =
        Some (Return (\<lparr>RepositoriesProcessed = 0, ImagesDeleted = 0, SpaceFreed = 0\<rparr>, Some e),
              w1)) \<and>
   (\<forall>s err w'. CleanupWithClient clock cfg client w = Some (Return (s, err), w') \<longrightarrow>
      (err \<noteq> None \<longleftrightarrow> (\<exists>e w1. getRepositories client w = Some (Inl e, w1))) \<and>
      (\<forall>repos w1. getRepositories client w = Some (Inr repos, w1) \<longrightarrow>
         RepositoriesProcessed s = int (length repos))) \<and>
   (\<forall>name repoSummary e w0 w1 rest summary.
      processRepository clock client name cfg w0 = Some (Return (repoSummary, Some e), w1) \<longrightarrow>
      processRepositories clock cfg client (\<lparr>RepositoryName = Some name\<rparr> # rest) summary w0 =
        processRepositories clock cfg client rest summary
          (log_Printf (LogRepoError name e) w1)) \<and>
   (\<forall>name repoSummary w0 w1 rest summary.
      processRepository clock client name cfg w0 = Some (Return (repoSummary, None), w1) \<longrightarrow>
      processRepositories clock cfg client (\<lparr>RepositoryName = Some name\<rparr> # rest) summary w0 =
        processRepositories clock cfg client rest
          (summary\<lparr>ImagesDeleted := ImagesDeleted summary + ImagesDeleted repoSummary,
                   SpaceFreed := SpaceFreed summary + SpaceFreed repoSummary\<rparr>) w1) \<and>
   (\<forall>repos w1.
      getRepositories client w = Some (Inr repos, w1) \<and>
      (\<forall>repo\<in>set repos. RepositoryName repo \<noteq> None) \<and>
      (\<forall>name w0. \<exists>r w2. processRepository clock client name cfg w0 = Some (Return r, w2)) \<longrightarrow>
      (\<exists>s w'. CleanupWithClient clock cfg client w = Some (Return (s, None), w')))"
proof (intro conjI allI impI)
  fix e w1
  assume "getRepositories client w = Some (Inl e, w1)"
  then show "CleanupWithClient clock cfg client w =
      Some (Return (\<lparr>RepositoriesProcessed = 0, ImagesDeleted = 0, SpaceFreed = 0\<rparr>, Some e),
            w1)"
    by (rule CleanupWithClient_fetch_failed)
next
  fix s err w'
  assume "CleanupWithClient clock cfg client w = Some (Return (s, err), w')"
  from CleanupWithClient_returned [OF this]
  show "(err \<noteq> None) = (\<exists>e w1. getRepositories client w = Some (Inl e, w1))"
    by (rule conjunct1)
next
  fix s err w' repos w1
  assume "CleanupWithClient clock cfg client w = Some (Return (s, err), w')"
    and "getRepositories client w = Some (Inr repos, w1)"
  with CleanupWithClient_returned [of clock cfg client w s err w']
  show "RepositoriesProcessed s = int (length repos)"
    by blast
next
  fix name repoSummary e w0 w1 rest summary
  assume "processRepository clock client name cfg w0 =
      Some (Return (repoSummary, Some e), w1)"
  then show "processRepositories clock cfg client (\<lparr>RepositoryName = Some name\<rparr> # rest)
        summary w0 =
      processRepositories clock cfg client rest summary (log_Printf (LogRepoError name e) w1)"
    by (rule processRepositories_error_step)
next
  fix name repoSummary w0 w1 rest summary
  assume "processRepository clock client name cfg w0 = Some (Return (repoSummary, None), w1)"
  then show "processRepositories clock cfg client (\<lparr>RepositoryName = Some name\<rparr> # rest)
        summary w0 =
      processRepositories clock cfg client rest
        (summary\<lparr>ImagesDeleted := ImagesDeleted summary + ImagesDeleted repoSummary,
                 SpaceFreed := SpaceFreed summary + SpaceFreed repoSummary\<rparr>) w1"
    by (rule processRepositories_ok_step)
next
  fix repos w1
  assume "getRepositories client w = Some (Inr repos, w1) \<and>
      (\<forall>repo\<in>set repos. RepositoryName repo \<noteq> None) \<and>
      (\<forall>name w0. \<exists>r w2. processRepository clock client name cfg w0 = Some (Return r, w2))"
  then show "\<exists>s w'. CleanupWithClient clock cfg client w = Some (Return (s, None), w')"
    using CleanupWithClient_returns [of client w repos w1 clock cfg] by blast
qed


lemma emptyRepo_listing:
  "getRepositories emptyRepoClient World0 =
     Some (Inl testError, \<lparr>calls = [DescribeRepositoriesCall None], logged = []\<rparr>)"
  by code_simp

lemma partialFailure_listing:
  "getRepositories partialFailureClient World0 =
     Some (Inr [\<lparr>RepositoryName = Some ''repo-a''\<rparr>, \<lparr>RepositoryName = Some ''repo-b''\<rparr>],
           \<lparr>calls = [DescribeRepositoriesCall None], logged = []\<rparr>)"
  by code_simp

lemma partialFailure_repo_a:
  "processRepository test_clock partialFailureClient ''repo-a'' (testConfig False 10)
      \<lparr>calls = [DescribeRepositoriesCall None], logged = []\<rparr> =
     Some (Return (\<lparr>RepositoriesProcessed = 1, ImagesDeleted = 0, SpaceFreed = 0\<rparr>,
                   Some (Wrap ''failed to get image details'' (ServerException ''List error''))),
           \<lparr>calls = [DescribeRepositoriesCall None, ListImagesCall ''repo-a'' None],
            logged = [LogProcessing ''repo-a'']\<rparr>)"
  by code_simp

lemma partialFailure_repo_b:
  "processRepository test_clock partialFailureClient ''repo-b'' (testConfig False 10)
      (log_Printf (LogRepoError ''repo-a''
          (Wrap ''failed to get image details'' (ServerException ''List error'')))
        \<lparr>calls = [DescribeRepositoriesCall None, ListImagesCall ''repo-a'' None],
         logged = [LogProcessing ''repo-a'']\<rparr>) =
     Some (Return (\<lparr>RepositoriesProcessed = 1, ImagesDeleted = 1, SpaceFreed = 1000000\<rparr>, None),
           \<lparr>calls = [DescribeRepositoriesCall None, ListImagesCall ''repo-a'' None,
                     ListImagesCall ''repo-b'' None,
                     DescribeImagesCall ''repo-b'' [tagId ''v1''],
                     BatchDeleteImageCall ''repo-b'' [tagId ''v1'']],
            logged = [LogProcessing ''repo-a'',
                      LogRepoError ''repo-a''
                        (Wrap ''failed to get image details'' (ServerException ''List error'')),
                      LogProcessing ''repo-b'', LogFound 1 ''repo-b'',
                      LogSelected 1 ''repo-b'', LogDeleted 1 ''repo-b'']\<rparr>)"
  by code_simp

lemma partialFailure_select:
  "selectImagesForDeletion (test_clock h) [olderImage] (testConfig dry 10) = [olderImage]"
  by (simp add: selectImagesForDeletion_def keepCount_def cutoffTime_def fixture_defs sort_eval
      client_defs)

lemma partialFailure_total:
  "\<exists>r w2. processRepository test_clock partialFailureClient name (testConfig False 10) w0 =
     Some (Return r, w2)"
proof (cases "name = ''repo-a''")
  case True
  then show ?thesis
    unfolding processRepository_def getImageDetails_def
    by (subst getImageDetails_loop.simps) (simp add: partialFailureClient_def)
next
  case False
  have del: "fst (deleteImages partialFailureClient name imgs w) = Return None" for imgs w
    unfolding deleteImages_def
    by (rule deleteImages_loop_succeeds) (simp add: partialFailureClient_def)
  have dry: "\<not> DryRun (testConfig False 10)"
    by (simp add: testConfig_def)
  from False have fetch: "getImageDetails partialFailureClient name w =
      Some (Inr [olderImage],
            record_call (DescribeImagesCall name [tagId ''v1''])
              (record_call (ListImagesCall name None) w))" for w
    unfolding getImageDetails_def
    by (subst getImageDetails_loop.simps) (simp add: partialFailureClient_def Let_def)
  show ?thesis
    by (simp add: processRepository_def fetch Let_def partialFailure_select case_prod_beta
        del dry)
qed

theorem CleanupWithClient_absorbs_repository_errors_witness:
  "CleanupWithClient test_clock (testConfig False 10) emptyRepoClient World0 =
     Some (Return (\<lparr>RepositoriesProcessed = 0, ImagesDeleted = 0, SpaceFreed = 0\<rparr>,
                   Some testError),
           \<lparr>calls = [DescribeRepositoriesCall None], logged = []\<rparr>) \<and>
   (\<exists>w'. CleanupWithClient test_clock (testConfig False 10) partialFailureClient World0 =
     Some (Return (\<lparr>RepositoriesProcessed = 2, ImagesDeleted = 1, SpaceFreed = 1000000\<rparr>,
                   None), w'))"
proof -
  note fetch_failed =
    CleanupWithClient_absorbs_repository_errors [THEN conjunct1, rule_format]
  note returned =
    CleanupWithClient_absorbs_repository_errors [THEN conjunct2, THEN conjunct1, rule_format]
  note error_step =
    CleanupWithClient_absorbs_repository_errors
      [THEN conjunct2, THEN conjunct2, THEN conjunct1, rule_format]
  note ok_step =
    CleanupWithClient_absorbs_repository_errors
      [THEN conjunct2, THEN conjunct2, THEN conjunct2, THEN conjunct1, rule_format]
  note returns =
    CleanupWithClient_absorbs_repository_errors
      [THEN conjunct2, THEN conjunct2, THEN conjunct2, THEN conjunct2, rule_format]
  have first: "CleanupWithClient test_clock (testConfig False 10) emptyRepoClient World0 =
     Some (Return (\<lparr>RepositoriesProcessed = 0, ImagesDeleted = 0, SpaceFreed = 0\<rparr>,
                   Some testError),
           \<lparr>calls = [DescribeRepositoriesCall None], logged = []\<rparr>)"
    by (rule fetch_failed [OF emptyRepo_listing])
  have named: "\<forall>repo\<in>set [\<lparr>RepositoryName = Some ''repo-a''\<rparr>,
      \<lparr>RepositoryName = Some ''repo-b''\<rparr>]. RepositoryName repo \<noteq> None"
    by simp
  from returns [of partialFailureClient World0 _ _ test_clock "testConfig False 10"]
       partialFailure_listing named partialFailure_total
  obtain s w' where
    run: "CleanupWithClient test_clock (testConfig False 10) partialFailureClient World0 =
      Some (Return (s, None), w')"
    by blast
  from returned [OF run] partialFailure_listing
  have count: "RepositoriesProcessed s = 2" by simp
  have loop: "processRepositories test_clock (testConfig False 10) partialFailureClient
     [\<lparr>RepositoryName = Some ''repo-a''\<rparr>, \<lparr>RepositoryName = Some ''repo-b''\<rparr>]
     \<lparr>RepositoriesProcessed = 2, ImagesDeleted = 0, SpaceFreed = 0\<rparr>
     \<lparr>calls = [DescribeRepositoriesCall None], logged = []\<rparr> =
     Some (Return \<lparr>RepositoriesProcessed = 2, ImagesDeleted = 1, SpaceFreed = 1000000\<rparr>,
           \<lparr>calls = [DescribeRepositoriesCall None, ListImagesCall ''repo-a'' None,
                     ListImagesCall ''repo-b'' None,
                     DescribeImagesCall ''repo-b'' [tagId ''v1''],
                     BatchDeleteImageCall ''repo-b'' [tagId ''v1'']],
            logged = [LogProcessing ''repo-a'',
                      LogRepoError ''repo-a''
                        (Wrap ''failed to get image details'' (ServerException ''List error'')),
                      LogProcessing ''repo-b'', LogFound 1 ''repo-b'',
                      LogSelected 1 ''repo-b'', LogDeleted 1 ''repo-b'']\<rparr>)"
    unfolding error_step [OF partialFailure_repo_a] ok_step [OF partialFailure_repo_b]
    by simp
  with run partialFailure_listing
  have "s = \<lparr>RepositoriesProcessed = 2, ImagesDeleted = 1, SpaceFreed = 1000000\<rparr>"
    by (simp add: CleanupWithClient_def del: processRepositories.simps)
  with run first count show ?thesis by blast
qed

section \<open>A delete that fails part-way\<close>

lemma deleteImages_failed:
  assumes "fst (deleteImages client repoName images w) = Return (Some e)"
  shows "\<exists>n e'.
     calls (snd (deleteImages client repoName images w)) =
       calls w @ batchCalls repoName images 0 (Suc n) \<and>
     (\<forall>k<n. \<exists>out. BatchDeleteImage client (calls w @ batchCalls repoName images 0 k) repoName
                      (batchIds images (k * batchSize)) = Inr out) \<and>
     BatchDeleteImage client (calls w @ batchCalls repoName images 0 n) repoName
        (batchIds images (n * batchSize)) = Inl e' \<and>
     e = Wrap ''failed to delete batch of images'' e' \<and>
     n * batchSize < length images"
  using deleteImages_loop_failed [of client repoName images 0 w e] assms
  by (simp add: deleteImages_def)

lemma length_full_batch:
  "k * batchSize + batchSize \<le> length images \<Longrightarrow> length (batchIds images (k * batchSize)) = 100"
  by (simp add: batchIds_def batchSize_def)

lemma processRepository_error_after_fetch:
  assumes fetch: "getImageDetails client repoName (log_Printf (LogProcessing repoName) w) =
             Some (Inr images, w1)"
    and run: "processRepository clock client repoName cfg w = Some (Return (s, Some e), w')"
  shows "\<exists>w3. calls w3 = calls w1 \<and>
           deleteImages client repoName (selectImagesForDeletion (clock (calls w1)) images cfg) w3
             = (Return (Some e), w')"
proof -
  let ?sel = "selectImagesForDeletion (clock (calls w1)) images cfg"
  let ?w3 = "log_Printf (LogSelected (length ?sel) repoName)
               (log_Printf (LogFound (length images) repoName) w1)"
  from fetch run have nonempty: "?sel \<noteq> []"
    by (auto simp: processRepository_def)
  from fetch run nonempty have wet: "\<not> DryRun cfg"
    by (cases "fst (dryRunReport repoName ?sel ?w3)")
       (auto simp: processRepository_def Let_def case_prod_beta)
  obtain r w4 where del: "deleteImages client repoName ?sel ?w3 = (r, w4)"
    by (cases "deleteImages client repoName ?sel ?w3")
  from fetch run nonempty wet del have "r = Return (Some e) \<and> w4 = w'"
    by (auto simp: processRepository_def Let_def split: outcome.splits option.splits)
  with del have "deleteImages client repoName ?sel ?w3 = (Return (Some e), w')" by simp
  moreover have "calls ?w3 = calls w1" by simp
  ultimately show ?thesis by blast
qed

text \<open>
  Claim C9. Let the images of a repository be fetched and let \<^verbatim>\<open>processRepository\<close> then
  return an error \<open>e\<close>. The error is that of a delete request: some \<open>n\<close> delete
  requests, of 100 identifiers each, were sent and accepted by the registry one after
  the other, the next one failed, and no request follows it, so nothing undoes the
  accepted ones. The driver still leaves its summary as it was for this repository and
  goes on with the next: the \<open>100 * n\<close> images of the accepted requests are counted
  nowhere.
\<close>

theorem deletion_not_atomic_across_chunks:
  assumes fetch: "getImageDetails client repoName (log_Printf (LogProcessing repoName) w) =
             Some (Inr images, w1)"
    and run: "processRepository clock client repoName cfg w = Some (Return (s, Some e), w')"
  shows "\<exists>n e'.
     calls w' =
       calls w1 @
       batchCalls repoName (selectImagesForDeletion (clock (calls w1)) images cfg) 0 (Suc n) \<and>
     (\<forall>k<n.
        length (batchIds (selectImagesForDeletion (clock (calls w1)) images cfg)
                  (k * batchSize)) = 100 \<and>
        (\<exists>out. BatchDeleteImage client
                 (calls w1 @
                  batchCalls repoName (selectImagesForDeletion (clock (calls w1)) images cfg) 0 k)
                 repoName
                 (batchIds (selectImagesForDeletion (clock (calls w1)) images cfg)
                    (k * batchSize)) = Inr out)) \<and>
     BatchDeleteImage client
       (calls w1 @
        batchCalls repoName (selectImagesForDeletion (clock (calls w1)) images cfg) 0 n)
       repoName
       (batchIds (selectImagesForDeletion (clock (calls w1)) images cfg) (n * batchSize)) =
       Inl e' \<and>
     e = Wrap ''failed to delete batch of images'' e' \<and>
     processRepositories clock cfg client (\<lparr>RepositoryName = Some repoName\<rparr> # rest) summary w =
       processRepositories clock cfg client rest summary
         (log_Printf (LogRepoError repoName e) w')"
proof -
  let ?sel = "selectImagesForDeletion (clock (calls w1)) images cfg"
  from processRepository_error_after_fetch [of client repoName w images w1 clock cfg s e w']
       fetch run
  obtain w3 where w3: "calls w3 = calls w1"
    "deleteImages client repoName ?sel w3 = (Return (Some e), w')"
    by blast
  from w3(2) have "fst (deleteImages client repoName ?sel w3) = Return (Some e)" by simp
  from deleteImages_failed [OF this] w3 obtain n e' where
    d: "calls w' = calls w1 @ batchCalls repoName ?sel 0 (Suc n)"
       "\<forall>k<n. \<exists>out. BatchDeleteImage client (calls w1 @ batchCalls repoName ?sel 0 k) repoName
                      (batchIds ?sel (k * batchSize)) = Inr out"
       "BatchDeleteImage client (calls w1 @ batchCalls repoName ?sel 0 n) repoName
          (batchIds ?sel (n * batchSize)) = Inl e'"
       "e = Wrap ''failed to delete batch of images'' e'"
       "n * batchSize < length ?sel"
    by auto
  have full: "length (batchIds ?sel (k * batchSize)) = 100" if "k < n" for k
  proof -
    from that have "Suc k \<le> n" by simp
    then have "Suc k * batchSize \<le> n * batchSize" by (rule mult_le_mono1)
    with d(5) have "k * batchSize + batchSize \<le> length ?sel" by simp
    then show ?thesis by (rule length_full_batch)
  qed
  have step: "processRepositories clock cfg client (\<lparr>RepositoryName = Some repoName\<rparr> # rest)
        summary w =
      processRepositories clock cfg client rest summary (log_Printf (LogRepoError repoName e) w')"
    using run by simp
  from d(1) d(2) d(3) d(4) full step show ?thesis by blast
qed


lemma secondBatchFails_listing:
  "getRepositories secondBatchFailsClient World0 =
     Some (Inr [\<lparr>RepositoryName = Some ''test-repo''\<rparr>],
           \<lparr>calls = [DescribeRepositoriesCall None], logged = []\<rparr>)"
  by code_simp

lemma secondBatchFails_fetch:
  "getImageDetails secondBatchFailsClient ''test-repo''
      (log_Printf (LogProcessing ''test-repo'')
         \<lparr>calls = [DescribeRepositoriesCall None], logged = []\<rparr>) =
     Some (Inr (manyImages 101),
           \<lparr>calls = [DescribeRepositoriesCall None, ListImagesCall ''test-repo'' None,
                     DescribeImagesCall ''test-repo'' [tagId ''old'']],
            logged = [LogProcessing ''test-repo'']\<rparr>)"
  unfolding getImageDetails_def
  by (subst getImageDetails_loop.simps)
     (simp add: secondBatchFailsClient_def record_call_def log_Printf_def Let_def)

lemma manyImages_all_selected:
  "length (selectImagesForDeletion (test_clock h) (manyImages n) (testConfig dry 10)) = n"
proof -
  let ?old = "\<lambda>img. case ImagePushedAt img of None \<Rightarrow> False
                | Some t \<Rightarrow> t < cutoffTime (test_clock h) (testConfig dry 10)"
  have "set (sortImagesByPushedTime (manyImages n)) = set (manyImages n)"
    using mset_sortImagesByPushedTime [of "manyImages n"] by (metis set_mset_mset)
  moreover have "\<forall>img\<in>set (manyImages n). ?old img"
    by (simp add: manyImages_def cutoffTime_def fixture_defs client_defs)
  ultimately have "filter ?old (sortImagesByPushedTime (manyImages n)) =
      sortImagesByPushedTime (manyImages n)"
    by (simp add: filter_id_conv)
  moreover have "keepCount (testConfig dry 10) (manyImages n) = 0"
    by (simp add: keepCount_def testConfig_def)
  ultimately show ?thesis
    by (simp add: selectImagesForDeletion_filter length_sortImagesByPushedTime
        length_manyImages)
qed

lemma secondBatchFails_delete:
  assumes len: "length sel = 101" and fresh: "\<not> list_ex isBatchDelete (calls w)"
  shows "fst (deleteImages secondBatchFailsClient ''test-repo'' sel w) =
           Return (Some (Wrap ''failed to delete batch of images'' deleteError))"
proof -
  let ?out = "\<lparr>Failures = []\<rparr>"
  let ?w2 = "snd (afterBatch ''test-repo'' sel 0 ?out w)"
  from fresh have first: "BatchDeleteImage secondBatchFailsClient (calls w) ''test-repo''
      (batchIds sel 0) = Inr ?out"
    by (simp add: secondBatchFailsClient_def)
  have ret: "fst (afterBatch ''test-repo'' sel 0 ?out w) = Return ()"
    by (rule afterBatch_returns) simp
  have second: "BatchDeleteImage secondBatchFailsClient (calls ?w2) ''test-repo''
      (batchIds sel (0 + batchSize)) = Inl deleteError"
    by (simp add: afterBatch_calls secondBatchFailsClient_def isBatchDelete_def)
  from len have "deleteImages_loop secondBatchFailsClient ''test-repo'' sel 0 w =
      deleteImages_loop secondBatchFailsClient ''test-repo'' sel (0 + batchSize) ?w2"
    by (simp add: deleteImages_loop_step first ret)
  moreover from len have "0 + batchSize < length sel" by (simp add: batchSize_def)
  then have "fst (deleteImages_loop secondBatchFailsClient ''test-repo'' sel (0 + batchSize) ?w2)
      = Return (Some (Wrap ''failed to delete batch of images'' deleteError))"
    by (simp only: deleteImages_loop_step second sum.case fst_conv)
  ultimately show ?thesis by (simp add: deleteImages_def)
qed

lemma secondBatchFails_run:
  "\<exists>s w'. processRepository test_clock secondBatchFailsClient ''test-repo'' (testConfig False 10)
      \<lparr>calls = [DescribeRepositoriesCall None], logged = []\<rparr> =
     Some (Return (s, Some (Wrap ''failed to delete batch of images'' deleteError)), w')"
proof -
  let ?w1 = "\<lparr>calls = [DescribeRepositoriesCall None, ListImagesCall ''test-repo'' None,
                     DescribeImagesCall ''test-repo'' [tagId ''old'']],
            logged = [LogProcessing ''test-repo'']\<rparr>"
  let ?sel = "selectImagesForDeletion (test_clock (calls ?w1)) (manyImages 101)
                (testConfig False 10)"
  let ?w3 = "log_Printf (LogSelected (length ?sel) ''test-repo'')
               (log_Printf (LogFound (length (manyImages 101)) ''test-repo'') ?w1)"
  have len: "length ?sel = 101" by (rule manyImages_all_selected)
  then have nonempty: "?sel \<noteq> []" by auto
  have wet: "\<not> DryRun (testConfig False 10)" by (simp add: testConfig_def)
  have "\<not> list_ex isBatchDelete (calls ?w3)"
    by (simp add: isBatchDelete_def)
  from secondBatchFails_delete [OF len this]
  have "fst (deleteImages secondBatchFailsClient ''test-repo'' ?sel ?w3) =
           Return (Some (Wrap ''failed to delete batch of images'' deleteError))" .
  with nonempty wet show ?thesis
    by (simp add: processRepository_def secondBatchFails_fetch Let_def case_prod_beta)
qed

theorem deletion_not_atomic_across_chunks_witness:
  "\<exists>w' ids.
     CleanupWithClient test_clock (testConfig False 10) secondBatchFailsClient World0 =
       Some (Return (\<lparr>RepositoriesProcessed = 1, ImagesDeleted = 0, SpaceFreed = 0\<rparr>, None), w') \<and>
     length ids = 100 \<and>
     BatchDeleteImageCall ''test-repo'' ids \<in> set (calls w') \<and>
     BatchDeleteImage secondBatchFailsClient
       [DescribeRepositoriesCall None, ListImagesCall ''test-repo'' None,
        DescribeImagesCall ''test-repo'' [tagId ''old'']] ''test-repo'' ids =
       Inr \<lparr>Failures = []\<rparr>"
proof -
  let ?cfg = "testConfig False 10"
  let ?wl = "\<lparr>calls = [DescribeRepositoriesCall None], logged = []\<rparr>"
  let ?w1 = "\<lparr>calls = [DescribeRepositoriesCall None, ListImagesCall ''test-repo'' None,
                     DescribeImagesCall ''test-repo'' [tagId ''old'']],
            logged = [LogProcessing ''test-repo'']\<rparr>"
  let ?sel = "selectImagesForDeletion (test_clock (calls ?w1)) (manyImages 101) ?cfg"
  let ?e = "Wrap ''failed to delete batch of images'' deleteError"
  let ?start = "\<lparr>RepositoriesProcessed = 1, ImagesDeleted = 0, SpaceFreed = 0\<rparr>"
  from secondBatchFails_run obtain s w' where
    run: "processRepository test_clock secondBatchFailsClient ''test-repo'' ?cfg ?wl =
            Some (Return (s, Some ?e), w')"
    by blast
  from deletion_not_atomic_across_chunks
         [of secondBatchFailsClient "''test-repo''" ?wl "manyImages 101" ?w1 test_clock ?cfg
             s ?e w' "[]" ?start]
       secondBatchFails_fetch run
  obtain n e' where
    c: "calls w' = calls ?w1 @ batchCalls ''test-repo'' ?sel 0 (Suc n)"
       "\<forall>k<n. length (batchIds ?sel (k * batchSize)) = 100 \<and>
          (\<exists>out. BatchDeleteImage secondBatchFailsClient
                   (calls ?w1 @ batchCalls ''test-repo'' ?sel 0 k) ''test-repo''
                   (batchIds ?sel (k * batchSize)) = Inr out)"
       "BatchDeleteImage secondBatchFailsClient
          (calls ?w1 @ batchCalls ''test-repo'' ?sel 0 n) ''test-repo''
          (batchIds ?sel (n * batchSize)) = Inl e'"
       "processRepositories test_clock ?cfg secondBatchFailsClient
          [\<lparr>RepositoryName = Some ''test-repo''\<rparr>] ?start ?wl =
        processRepositories test_clock ?cfg secondBatchFailsClient [] ?start
          (log_Printf (LogRepoError ''test-repo'' ?e) w')"
    by blast
  have "n \<noteq> 0"
  proof
    assume "n = 0"
    with c(3) show False
      by (simp add: secondBatchFailsClient_def isBatchDelete_def)
  qed
  with c(2) have full: "length (batchIds ?sel 0) = 100" by auto
  have accepted: "BatchDeleteImage secondBatchFailsClient (calls ?w1) ''test-repo''
      (batchIds ?sel 0) = Inr \<lparr>Failures = []\<rparr>"
    by (simp add: secondBatchFailsClient_def isBatchDelete_def)
  from c(1) have sent: "BatchDeleteImageCall ''test-repo'' (batchIds ?sel 0) \<in>
      set (calls (log_Printf (LogRepoError ''test-repo'' ?e) w'))"
    by (simp add: batchCalls_Suc_front del: upt_Suc)
  from c(4) secondBatchFails_listing
  have "CleanupWithClient test_clock ?cfg secondBatchFailsClient World0 =
      Some (Return (?start, None), log_Printf (LogRepoError ''test-repo'' ?e) w')"
    by (simp add: CleanupWithClient_def del: processRepositories.simps(2))
  with full sent accepted show ?thesis by auto
qed

end
